(* ===== verification/Prelude.thy ===== *)
theory Prelude
  imports Main "HOL-Library.State_Monad" "HOL-Library.Word"
begin

section \<open>Shared vocabulary\<close>

text \<open>
  What every component of the development shares: the failures a C program can run into
  besides an error code (type \<open>fail\<close>), the state monad with C's early returns, and the
  lemmas on lists, \<open>takeWhile\<close> and updates that the component proofs use.

  The collections declared here group automation. \<open>c_string\<close> holds the rules that
  evaluate the string functions of the C library, \<open>sem_simps\<close> those of semaphores and
  shared segments, \<open>run_simps\<close> those that execute a monadic handler symbolically.
\<close>

named_theorems c_string \<open>evaluation rules of the C string functions\<close>
named_theorems sem_simps \<open>evaluation rules of the System V objects\<close>
named_theorems run_simps \<open>symbolic execution of monadic handlers\<close>

subsection \<open>Failures\<close>

text \<open>
  \<open>Segv\<close> is an access outside the object it should address (C leaves it undefined, the
  kernel answers with a signal at best), \<open>Blocked\<close> a call that does not return in the
  state and environment considered, \<open>Use_after_free\<close> the use of a freed handle and
  \<open>Overflow\<close> a write past the end of a buffer, \<open>Null_deref\<close> an access through a null pointer,
  \<open>Indeterminate\<close> the use of a value never stored, \<open>Aborted\<close> a failed \<open>assert\<close>,
  \<open>Div_trap\<close> a division the processor traps on.
\<close>

datatype fail = Segv | Blocked | Use_after_free | Overflow | Null_deref | Indeterminate | Aborted | Div_trap

type_synonym 'a res = "fail + 'a"

definition rbind :: "'a res \<Rightarrow> ('a \<Rightarrow> 'b res) \<Rightarrow> 'b res" where
  "rbind r f = (case r of Inl e \<Rightarrow> Inl e | Inr x \<Rightarrow> f x)"

lemma rbind_simps [simp]:
  "rbind (Inl e) f = Inl e" "rbind (Inr x) f = f x"
  by (simp_all add: rbind_def)

lemma rbind_eq_Inr_iff:
  "rbind r f = Inr y \<longleftrightarrow> (\<exists>x. r = Inr x \<and> f x = Inr y)"
  by (cases r) simp_all

lemma rbind_cong [fundef_cong]:
  "r = r' \<Longrightarrow> (\<And>x. r' = Inr x \<Longrightarrow> f x = g x) \<Longrightarrow> rbind r f = rbind r' g"
  by (cases r') simp_all

subsection \<open>The state monad\<close>

lemma run_state_if [run_simps]:
  "run_state (if b then m else n) s = (if b then run_state m s else run_state n s)"
  by simp

lemma run_state_case_option [run_simps]:
  "run_state (case x of None \<Rightarrow> m | Some y \<Rightarrow> f y) s =
     (case x of None \<Rightarrow> run_state m s | Some y \<Rightarrow> run_state (f y) s)"
  by (cases x) simp_all

lemma run_state_case_prod [run_simps]:
  "run_state (case p of (a, b) \<Rightarrow> f a b) s = (case p of (a, b) \<Rightarrow> run_state (f a b) s)"
  by (cases p) simp

lemma run_state_Let [run_simps]:
  "run_state (Let x f) s = (let y = x in run_state (f y) s)"
  by simp

subsection \<open>Lists\<close>

lemma takeWhile_all: "(\<And>x. x \<in> set xs \<Longrightarrow> P x) \<Longrightarrow> takeWhile P xs = xs"
  by (induction xs) auto

lemma takeWhile_append_stop:
  "(\<And>x. x \<in> set xs \<Longrightarrow> P x) \<Longrightarrow> \<not> P y \<Longrightarrow> takeWhile P (xs @ y # ys) = xs"
  by (induction xs) auto

lemma takeWhile_take_min:
  "length (takeWhile P xs) \<le> n \<Longrightarrow> n < length xs \<Longrightarrow> takeWhile P (take (Suc n) xs) = takeWhile P xs"
proof (induction xs arbitrary: n)
  case Nil
  then show ?case by simp
next
  case (Cons x xs)
  then show ?case by (cases n) auto
qed

lemma take_Suc_update:
  "n < length xs \<Longrightarrow> take (Suc n) (xs[n := v]) = take n xs @ [v]"
  by (simp add: take_Suc_conv_app_nth)

lemma map_upd_beyond:
  "map (f(n := v)) [0..<n] = map f [0..<n]"
  by simp

lemma map_upto_snoc:
  "map (f(n := v)) [0..<Suc n] = map f [0..<n] @ [v]"
  by simp

lemma butlast_map_upto: "butlast (map f [0..<n]) = map f [0..<n - 1]"
  by (cases n) simp_all

lemma last_map_upto: "0 < n \<Longrightarrow> last (map f [0..<n]) = f (n - 1)"
  by (cases n) simp_all

lemma replicate_update_0:
  "0 < n \<Longrightarrow> (replicate n x)[0 := y] = y # replicate (n - 1) x"
  by (cases n) simp_all

end
