(* ===== verification/CString.thy ===== *)
theory CString
  imports Prelude
begin

section \<open>C strings and the string functions of the C library\<close>

text \<open>
  A buffer is a \<open>char list\<close> of the length of the array; \<open>char\<close> is one byte.
  The string stored in it ends before the first NUL. The functions below are the parts of
  \<open>string.h\<close>, \<open>stdlib.h\<close>, \<open>ctype.h\<close> and \<open>stdio.h\<close> the programs call: they
  compute, so the models of the handlers can be evaluated on concrete input.
\<close>

type_synonym buf = "char list"

abbreviation nul :: char where
  "nul \<equiv> CHR 0x00"

definition cstr :: "buf \<Rightarrow> string" where
  "cstr b = takeWhile (\<lambda>c. c \<noteq> nul) b"

definition strlen :: "buf \<Rightarrow> nat" where
  "strlen b = length (cstr b)"

text \<open>A buffer of \<open>n\<close> bytes that holds \<open>s\<close> and zeros behind it.\<close>

definition zbuf :: "nat \<Rightarrow> string \<Rightarrow> buf" where
  "zbuf n s = take n s @ replicate (n - length s) nul"

lemma length_zbuf [simp]: "length (zbuf n s) = n"
  by (simp add: zbuf_def)

lemma cstr_simps [c_string]:
  "cstr [] = []" "cstr (c # cs) = (if c = nul then [] else c # cstr cs)"
  by (simp_all add: cstr_def)

lemma nul_notin_cstr [simp]: "nul \<notin> set (cstr b)"
  unfolding cstr_def by (auto dest: set_takeWhileD)

lemma cstr_append_nul: "nul \<notin> set s \<Longrightarrow> cstr (s @ nul # t) = s"
  unfolding cstr_def by (rule takeWhile_append_stop) auto

lemma cstr_no_nul: "nul \<notin> set s \<Longrightarrow> cstr s = s"
  unfolding cstr_def by (rule takeWhile_all) auto

lemma cstr_append_no_nul: "nul \<notin> set s \<Longrightarrow> cstr (s @ t) = s @ cstr t"
  by (induction s) (auto simp: c_string)

lemma cstr_replicate_nul [simp]: "cstr (replicate n nul) = []"
  by (cases n) (simp_all add: c_string)

lemma cstr_zbuf: "nul \<notin> set s \<Longrightarrow> length s \<le> n \<Longrightarrow> cstr (zbuf n s) = s"
  by (simp add: zbuf_def cstr_append_no_nul)

lemma cstr_cstr [simp]: "cstr (cstr b) = cstr b"
  by (simp add: cstr_no_nul)

lemma length_cstr_le: "length (cstr b) \<le> length b"
  by (simp add: cstr_def length_takeWhile_le)

subsection \<open>Copying\<close>

text \<open>
  \<open>write_at b i s\<close> is what remains of a buffer after the bytes \<open>s\<close> have been stored at
  offset \<open>i\<close>. \<open>strncpy d s n\<close> stores exactly \<open>n\<close> bytes: the string, cut or padded with
  zeros. \<open>snprintf_to n d s\<close> stores the text \<open>s\<close> cut to \<open>n - 1\<close> bytes and a NUL.
\<close>

definition write_at :: "buf \<Rightarrow> nat \<Rightarrow> buf \<Rightarrow> buf" where
  "write_at b i s = take i b @ s @ drop (i + length s) b"

definition strncpy :: "buf \<Rightarrow> buf \<Rightarrow> nat \<Rightarrow> buf" where
  "strncpy d s n = write_at d 0 (zbuf n (cstr (take n s)))"

definition strcpy :: "buf \<Rightarrow> buf \<Rightarrow> buf" where
  "strcpy d s = write_at d 0 (cstr s @ [nul])"

definition snprintf_to :: "nat \<Rightarrow> buf \<Rightarrow> string \<Rightarrow> buf" where
  "snprintf_to n d s = (if n = 0 then d else write_at d 0 (take (n - 1) s @ [nul]))"

definition memset0 :: "nat \<Rightarrow> buf \<Rightarrow> buf" where
  "memset0 n d = write_at d 0 (replicate n nul)"

lemma length_write_at: "i + length s \<le> length b \<Longrightarrow> length (write_at b i s) = length b"
  by (simp add: write_at_def)

lemma length_strncpy: "n \<le> length d \<Longrightarrow> length (strncpy d s n) = length d"
  by (simp add: strncpy_def length_write_at)

lemma length_snprintf_to:
  "n \<le> length d \<Longrightarrow> length (snprintf_to n d s) = length d"
  by (auto simp: snprintf_to_def intro!: length_write_at)

lemma cstr_strcpy [simp]: "cstr (strcpy d s) = cstr s"
  by (simp add: strcpy_def write_at_def cstr_append_nul)

lemma cstr_snprintf_to:
  "0 < n \<Longrightarrow> nul \<notin> set (take (n - 1) s) \<Longrightarrow> cstr (snprintf_to n d s) = take (n - 1) s"
  by (simp add: snprintf_to_def write_at_def cstr_append_nul)

lemma cstr_strncpy:
  assumes "length (cstr (take n s)) < n \<or> cstr (drop n d) = []"
  shows "cstr (strncpy d s n) = cstr (take n s)"
proof -
  have nn: "nul \<notin> set (cstr (take n s))" by simp
  have le: "length (cstr (take n s)) \<le> n"
    using length_cstr_le [of "take n s"] by simp
  show ?thesis
  proof (cases "length (cstr (take n s)) < n")
    case True
    then obtain k where "n - length (cstr (take n s)) = Suc k"
      by (metis Suc_diff_Suc)
    then show ?thesis
      using le nn by (simp add: strncpy_def write_at_def zbuf_def cstr_append_nul)
  next
    case False
    with assms le nn show ?thesis
      by (simp add: strncpy_def write_at_def zbuf_def cstr_append_no_nul)
  qed
qed

subsection \<open>Comparing\<close>

text \<open>
  Only the test for equality with zero is used of \<open>strcmp\<close> and \<open>strncmp\<close>:
  \<open>strncmp_eq n a b\<close> is \<open>strncmp(a, b, n) == 0\<close>, that is the strings, cut to \<open>n\<close>
  bytes, agree.
\<close>

definition strcmp_eq :: "buf \<Rightarrow> buf \<Rightarrow> bool" where
  "strcmp_eq a b \<longleftrightarrow> cstr a = cstr b"

definition strncmp_eq :: "nat \<Rightarrow> buf \<Rightarrow> buf \<Rightarrow> bool" where
  "strncmp_eq n a b \<longleftrightarrow> take n (cstr a) = take n (cstr b)"

lemma strncmp_eq_prefix:
  "nul \<notin> set p \<Longrightarrow> strncmp_eq (length p) (p @ s) p"
  by (simp add: strncmp_eq_def cstr_append_no_nul cstr_no_nul)

subsection \<open>Numbers\<close>

text \<open>
  \<open>isspace\<close> is the test of the C locale. \<open>atoi\<close> skips white space, takes an
  optional sign and the digits that follow; without a digit it returns 0. The standard
  leaves a value outside \<open>int\<close> undefined: the model returns the exact integer, and the
  callers state the bound where they need it.
\<close>

definition isspace :: "char \<Rightarrow> bool" where
  "isspace c \<longleftrightarrow> c \<in> {CHR '' '', CHR 0x09, CHR 0x0A, CHR 0x0B, CHR 0x0C, CHR 0x0D}"

definition isdigit :: "char \<Rightarrow> bool" where
  "isdigit c \<longleftrightarrow> 48 \<le> (of_char c :: nat) \<and> (of_char c :: nat) \<le> 57"

definition digit_val :: "char \<Rightarrow> int" where
  "digit_val c = of_char c - 48"

definition digits_val :: "string \<Rightarrow> int" where
  "digits_val s = foldl (\<lambda>n c. 10 * n + digit_val c) 0 (takeWhile isdigit s)"

definition atoi :: "buf \<Rightarrow> int" where
  "atoi b = (case dropWhile isspace (cstr b) of
       [] \<Rightarrow> 0
     | c # cs \<Rightarrow>
         if c = CHR ''-'' then - digits_val cs
         else if c = CHR ''+'' then digits_val cs
         else digits_val (c # cs))"

lemma atoi_cstr: "cstr a = cstr b \<Longrightarrow> atoi a = atoi b"
  by (simp add: atoi_def)

text \<open>The decimal text of an \<open>int\<close>, as \<open>%d\<close> prints it.\<close>

fun show_nat :: "nat \<Rightarrow> string" where
  "show_nat n = (if n < 10 then [char_of (48 + n)] else show_nat (n div 10) @ [char_of (48 + n mod 10)])"

declare show_nat.simps [simp del]

definition show_int :: "int \<Rightarrow> string" where
  "show_int i = (if i < 0 then CHR ''-'' # show_nat (nat (- i)) else show_nat (nat i))"

lemma digit_char:
  assumes "d < (10::nat)"
  shows "isdigit (char_of (48 + d))" "digit_val (char_of (48 + d)) = int d"
    "char_of (48 + d) \<noteq> nul"
proof -
  have v: "(of_char (char_of (48 + d)) :: nat) = 48 + d"
    using assms by (simp add: of_char_of)
  then show "isdigit (char_of (48 + d))"
    using assms by (simp add: isdigit_def)
  have "(of_char (char_of (48 + d)) :: int) = int (of_char (char_of (48 + d)))"
    by (rule of_nat_of_char [symmetric])
  with v have "(of_char (char_of (48 + d)) :: int) = int (48 + d)" by (simp only:)
  then show "digit_val (char_of (48 + d)) = int d"
    by (simp add: digit_val_def)
  show "char_of (48 + d) \<noteq> nul"
  proof
    assume "char_of (48 + d) = nul"
    then have "(of_char (char_of (48 + d)) :: nat) = of_char nul" by simp
    with v show False by simp
  qed
qed

lemma char_digits [simp]:
  "char_of (48 :: nat) = CHR ''0''" "char_of (49 :: nat) = CHR ''1''" "char_of (50 :: nat) = CHR ''2''"
  "char_of (51 :: nat) = CHR ''3''" "char_of (52 :: nat) = CHR ''4''" "char_of (53 :: nat) = CHR ''5''"
  "char_of (54 :: nat) = CHR ''6''" "char_of (55 :: nat) = CHR ''7''" "char_of (56 :: nat) = CHR ''8''"
  "char_of (57 :: nat) = CHR ''9''"
  by (simp_all add: char_of_eq_iff)

lemma show_nat_digits: "list_all isdigit (show_nat n)"
proof (induction n rule: show_nat.induct)
  case (1 n)
  then show ?case
    by (subst show_nat.simps) (auto simp: digit_char)
qed

lemma show_nat_nonempty: "show_nat n \<noteq> []"
  by (subst show_nat.simps) simp

lemma show_nat_val:
  "foldl (\<lambda>n c. 10 * n + digit_val c) 0 (show_nat n) = int n"
proof (induction n rule: show_nat.induct)
  case (1 n)
  show ?case
  proof (cases "n < 10")
    case True
    then show ?thesis by (subst show_nat.simps) (simp add: digit_char)
  next
    case False
    have "n = 10 * (n div 10) + n mod 10" by simp
    then have "int n = 10 * int (n div 10) + int (n mod 10)" by linarith
    with False 1 show ?thesis by (subst show_nat.simps) (simp add: digit_char)
  qed
qed

lemma isdigit_not_space: "isdigit c \<Longrightarrow> \<not> isspace c"
  by (auto simp: isdigit_def isspace_def)

lemma isdigit_not_sign: "isdigit c \<Longrightarrow> c \<noteq> CHR ''-'' \<and> c \<noteq> CHR ''+''"
  by (auto simp: isdigit_def)

lemma isdigit_not_nul: "isdigit c \<Longrightarrow> c \<noteq> nul"
  by (auto simp: isdigit_def)

lemma atoi_show_nat: "atoi (show_nat n) = int n"
proof -
  have d: "\<And>c. c \<in> set (show_nat n) \<Longrightarrow> isdigit c"
    using show_nat_digits [of n] by (simp add: list_all_iff)
  have "nul \<notin> set (show_nat n)"
    using d isdigit_not_nul by blast
  then have c: "cstr (show_nat n) = show_nat n" by (rule cstr_no_nul)
  obtain x xs where xs: "show_nat n = x # xs"
    using show_nat_nonempty by (cases "show_nat n") auto
  have "isdigit x" using d xs by simp
  then have "dropWhile isspace (show_nat n) = x # xs"
    by (simp add: xs isdigit_not_space)
  moreover have "takeWhile isdigit (x # xs) = x # xs"
    using d xs by (intro takeWhile_all) auto
  moreover have "x \<noteq> CHR ''-''" "x \<noteq> CHR ''+''"
    using \<open>isdigit x\<close> isdigit_not_sign by blast+
  ultimately show ?thesis
    using show_nat_val [of n] c xs by (simp add: atoi_def digits_val_def)
qed

subsection \<open>Bytes as numbers\<close>

text \<open>
  \<open>char\<close> is signed on the platforms the programs are built for: \<open>schar\<close> reads a byte as
  its value between -128 and 127, \<open>char_of_int\<close> stores the low eight bits of an integer.
  \<open>xor_char\<close> is \<open>^\<close> on two bytes.
\<close>

definition schar :: "char \<Rightarrow> int" where
  "schar c = (let v = of_char c in if v < 128 then v else v - 256)"

definition char_of_int :: "int \<Rightarrow> char" where
  "char_of_int v = char_of (nat (v mod 256))"

fun xor_char :: "char \<Rightarrow> char \<Rightarrow> char" where
  "xor_char (Char a0 a1 a2 a3 a4 a5 a6 a7) (Char b0 b1 b2 b3 b4 b5 b6 b7) =
     Char (a0 \<noteq> b0) (a1 \<noteq> b1) (a2 \<noteq> b2) (a3 \<noteq> b3) (a4 \<noteq> b4) (a5 \<noteq> b5) (a6 \<noteq> b6) (a7 \<noteq> b7)"

lemma xor_char_invol [simp]: "xor_char (xor_char c k) k = c"
  by (cases c; cases k) auto

lemma xor_char_eq_nul_iff: "xor_char c k = nul \<longleftrightarrow> c = k"
  by (cases c; cases k) auto

lemma xor_char_nul [simp]: "xor_char nul k = k"
  by (cases k) auto

lemma schar_range: "- 128 \<le> schar c \<and> schar c < 128"
proof -
  have "(of_char c :: int) < 256"
    by (metis char_of_take_bit_eq of_char_mod_256 mod_less_divisor of_char_of pos_mod_bound zero_less_numeral)
  moreover have "0 \<le> (of_char c :: int)"
    by (metis of_char_mod_256 pos_mod_sign zero_less_numeral)
  ultimately show ?thesis by (simp add: schar_def Let_def)
qed

subsection \<open>Formatted input\<close>

text \<open>
  \<open>scan_s\<close> and \<open>scan_d\<close> are the conversions \<open>%s\<close> and \<open>%d\<close> of \<open>fscanf\<close> on the text still
  unread: what is converted, if anything, and what is left. A sign without a digit behind it is
  consumed, as the standard prescribes.
\<close>

definition scan_s :: "string \<Rightarrow> string option \<times> string" where
  "scan_s t = (let t = dropWhile isspace t in
     if t = [] then (None, [])
     else (Some (takeWhile (\<lambda>c. \<not> isspace c) t), dropWhile (\<lambda>c. \<not> isspace c) t))"

definition scan_digits :: "string \<Rightarrow> int option \<times> string" where
  "scan_digits t = (if takeWhile isdigit t = [] then (None, t)
     else (Some (digits_val t), dropWhile isdigit t))"

definition scan_d :: "string \<Rightarrow> int option \<times> string" where
  "scan_d t = (case dropWhile isspace t of
       [] \<Rightarrow> (None, [])
     | c # cs \<Rightarrow>
         if c = CHR ''-'' then map_prod (map_option uminus) (\<lambda>r. r) (scan_digits cs)
         else if c = CHR ''+'' then scan_digits cs
         else scan_digits (c # cs))"

lemma scan_s_shorter: "scan_s t = (Some s, r) \<Longrightarrow> length r < length t \<and> s \<noteq> []"
proof -
  assume a: "scan_s t = (Some s, r)"
  let ?t = "dropWhile isspace t"
  from a have ne: "?t \<noteq> []" and s: "s = takeWhile (\<lambda>c. \<not> isspace c) ?t"
    and r: "r = dropWhile (\<lambda>c. \<not> isspace c) ?t"
    by (auto simp: scan_s_def Let_def split: if_splits)
  then obtain c cs where t: "?t = c # cs" by (cases ?t) auto
  then have c: "\<not> isspace c" by (metis dropWhile_eq_Cons_conv)
  then have "length r \<le> length cs" using r t by (simp add: length_dropWhile_le)
  moreover have "length ?t \<le> length t" by (rule length_dropWhile_le)
  ultimately show ?thesis using t s c by auto
qed

lemma scan_digits_le: "length (snd (scan_digits t)) \<le> length t"
  by (simp add: scan_digits_def length_dropWhile_le)

lemma scan_d_le: "length (snd (scan_d t)) \<le> length t"
proof -
  have "length (dropWhile isspace t) \<le> length t" by (rule length_dropWhile_le)
  moreover have "length (snd (scan_digits cs)) \<le> length cs" for cs by (rule scan_digits_le)
  ultimately show ?thesis
    by (fastforce simp: scan_d_def split: list.split intro: le_trans le_SucI)
qed

end
