(* ===== verification/SysV.thy ===== *)
theory SysV
  imports CString
begin

section \<open>System V shared memory and semaphores\<close>

text \<open>
  The kernel objects \<open>sh_stack\<close> works on, as far as its calls observe them: segments and
  semaphore sets with their keys, and the text written to standard output. \<open>shmget\<close>,
  \<open>shmat\<close>, \<open>shmdt\<close>, \<open>shmctl(IPC_RMID)\<close>, \<open>semget\<close>, \<open>semctl\<close> and \<open>semop\<close> follow their
  manual pages: a lookup asks for at most the size of the existing object, a segment is
  mapped in whole pages, a semaphore holds a value between 0 and \<open>SEMVMX\<close> (32767), a
  segment marked for destruction disappears with its last attachment, a semaphore set at
  once. A call that fails returns -1 and changes nothing.
\<close>

type_synonym voidp = "64 word"

record seg =
  seg_size :: int
  seg_mem :: "nat \<Rightarrow> voidp"
  seg_nattch :: nat
  seg_dest :: bool

record world =
  shm_key :: "int \<Rightarrow> int option"
  shm_seg :: "int \<Rightarrow> seg option"
  sem_key :: "int \<Rightarrow> int option"
  sem_set :: "int \<Rightarrow> int list option"
  next_id :: int
  out :: string

definition SEMVMX :: int where
  "SEMVMX = 32767"

definition printf :: "world \<Rightarrow> string \<Rightarrow> world" where
  "printf w s = w\<lparr>out := out w @ s\<rparr>"

subsection \<open>Segments\<close>

definition shmget :: "world \<Rightarrow> int \<Rightarrow> int \<Rightarrow> bool \<Rightarrow> int \<times> world" where
  "shmget w key sz creat = (case shm_key w key of
       Some oid \<Rightarrow> (case shm_seg w oid of
           None \<Rightarrow> (-1, w)
         | Some sg \<Rightarrow> if sz < 0 \<or> seg_size sg < sz then (-1, w) else (oid, w))
     | None \<Rightarrow>
         if creat \<and> 1 \<le> sz
         then (next_id w,
               w\<lparr>shm_key := (shm_key w)(key := Some (next_id w)),
                 shm_seg := (shm_seg w)(next_id w :=
                   Some \<lparr>seg_size = sz, seg_mem = (\<lambda>_. 0), seg_nattch = 0, seg_dest = False\<rparr>),
                 next_id := next_id w + 1\<rparr>)
         else (-1, w))"

definition shmat :: "world \<Rightarrow> int \<Rightarrow> int option \<times> world" where
  "shmat w oid = (case shm_seg w oid of
       None \<Rightarrow> (None, w)
     | Some sg \<Rightarrow> (Some oid,
         w\<lparr>shm_seg := (shm_seg w)(oid := Some (sg\<lparr>seg_nattch := seg_nattch sg + 1\<rparr>))\<rparr>))"

definition shmdt :: "world \<Rightarrow> int option \<Rightarrow> int \<times> world" where
  "shmdt w p = (case p of
       None \<Rightarrow> (-1, w)
     | Some oid \<Rightarrow> (case shm_seg w oid of
           None \<Rightarrow> (-1, w)
         | Some sg \<Rightarrow>
             if seg_nattch sg = 0 then (-1, w)
             else (0, w\<lparr>shm_seg := (shm_seg w)(oid :=
                     (if seg_dest sg \<and> seg_nattch sg = 1 then None
                      else Some (sg\<lparr>seg_nattch := seg_nattch sg - 1\<rparr>)))\<rparr>)))"

definition shmctl_rmid :: "world \<Rightarrow> int \<Rightarrow> int \<times> world" where
  "shmctl_rmid w oid = (case shm_seg w oid of
       None \<Rightarrow> (-1, w)
     | Some sg \<Rightarrow> (0,
         w\<lparr>shm_key := (\<lambda>k. if shm_key w k = Some oid then None else shm_key w k),
           shm_seg := (shm_seg w)(oid :=
             (if seg_nattch sg = 0 then None else Some (sg\<lparr>seg_dest := True\<rparr>)))\<rparr>))"

definition page_size :: int where
  "page_size = 4096"

definition mapped :: "int \<Rightarrow> int" where
  "mapped sz = (sz + page_size - 1) div page_size * page_size"

text \<open>Reading and writing the \<open>i\<close>-th pointer of an attached segment, 8 bytes wide.\<close>

definition in_seg :: "seg \<Rightarrow> int \<Rightarrow> bool" where
  "in_seg sg i \<longleftrightarrow> 0 \<le> i \<and> 8 * (i + 1) \<le> mapped (seg_size sg)"

definition read_slot :: "world \<Rightarrow> int option \<Rightarrow> int \<Rightarrow> voidp res" where
  "read_slot w p i = (case p of
       None \<Rightarrow> Inl Segv
     | Some oid \<Rightarrow> (case shm_seg w oid of
           None \<Rightarrow> Inl Segv
         | Some sg \<Rightarrow> if in_seg sg i then Inr (seg_mem sg (nat i)) else Inl Segv))"

definition write_slot :: "world \<Rightarrow> int option \<Rightarrow> int \<Rightarrow> voidp \<Rightarrow> world res" where
  "write_slot w p i v = (case p of
       None \<Rightarrow> Inl Segv
     | Some oid \<Rightarrow> (case shm_seg w oid of
           None \<Rightarrow> Inl Segv
         | Some sg \<Rightarrow>
             if in_seg sg i
             then Inr (w\<lparr>shm_seg := (shm_seg w)(oid :=
                         Some (sg\<lparr>seg_mem := (seg_mem sg)(nat i := v)\<rparr>))\<rparr>)
             else Inl Segv))"

lemma mapped_one_page: "1 \<le> n \<Longrightarrow> n \<le> 4096 \<Longrightarrow> mapped n = 4096"
  using int_div_pos_eq [of "n + 4095" 4096 1 "n - 1"] by (simp add: mapped_def page_size_def)

lemma mapped_bounds: "n \<le> mapped n \<and> mapped n < n + 4096"
proof -
  have "n + 4095 = (n + 4095) div 4096 * 4096 + (n + 4095) mod 4096"
    by (rule div_mult_mod_eq [symmetric])
  then have "n + 4095 = mapped n + (n + 4095) mod 4096"
    by (simp add: mapped_def page_size_def add.commute)
  moreover have "0 \<le> (n + 4095) mod 4096" "(n + 4095) mod 4096 < 4096"
    by simp_all
  ultimately show ?thesis by linarith
qed

lemma mapped_dvd: "8 dvd mapped n"
  by (simp add: mapped_def page_size_def)

subsection \<open>Semaphores\<close>

definition semget :: "world \<Rightarrow> int \<Rightarrow> nat \<Rightarrow> bool \<Rightarrow> int \<times> world" where
  "semget w key nsems creat = (case sem_key w key of
       Some oid \<Rightarrow> (case sem_set w oid of
           None \<Rightarrow> (-1, w)
         | Some vs \<Rightarrow> if length vs < nsems then (-1, w) else (oid, w))
     | None \<Rightarrow>
         if creat
         then (next_id w,
               w\<lparr>sem_key := (sem_key w)(key := Some (next_id w)),
                 sem_set := (sem_set w)(next_id w := Some (replicate nsems 0)),
                 next_id := next_id w + 1\<rparr>)
         else (-1, w))"

definition semctl_getval :: "world \<Rightarrow> int \<Rightarrow> nat \<Rightarrow> int" where
  "semctl_getval w oid n = (case sem_set w oid of
       None \<Rightarrow> -1
     | Some vs \<Rightarrow> if n < length vs then vs ! n else -1)"

definition semctl_setval :: "world \<Rightarrow> int \<Rightarrow> nat \<Rightarrow> int \<Rightarrow> world" where
  "semctl_setval w oid n v = (case sem_set w oid of
       None \<Rightarrow> w
     | Some vs \<Rightarrow>
         if n < length vs \<and> 0 \<le> v \<and> v \<le> SEMVMX
         then w\<lparr>sem_set := (sem_set w)(oid := Some (vs[n := v]))\<rparr> else w)"

definition semctl_rmid :: "world \<Rightarrow> int \<Rightarrow> world" where
  "semctl_rmid w oid =
     w\<lparr>sem_key := (\<lambda>k. if sem_key w k = Some oid then None else sem_key w k),
       sem_set := (sem_set w)(oid := None)\<rparr>"

text \<open>
  One operation of \<open>semop\<close> with no flags. A decrement below zero does not return until
  another process raises the value: \<open>Blocked\<close>.
\<close>

definition semop :: "world \<Rightarrow> int \<Rightarrow> nat \<Rightarrow> int \<Rightarrow> (int \<times> world) res" where
  "semop w oid n d = (case sem_set w oid of
       None \<Rightarrow> Inr (-1, w)
     | Some vs \<Rightarrow>
         if \<not> n < length vs then Inr (-1, w)
         else if vs ! n + d < 0 then Inl Blocked
         else if SEMVMX < vs ! n + d then Inr (-1, w)
         else Inr (0, w\<lparr>sem_set := (sem_set w)(oid := Some (vs[n := vs ! n + d]))\<rparr>))"

text \<open>
  While a process waits, the others run. \<open>es\<close> lists what they do to the kernel objects,
  one entry for each time the waiting process is scheduled; when the list is used up and
  the condition still does not hold, the call does not return.
\<close>

type_synonym interference = "(world \<Rightarrow> world) list"

fun semop_wait :: "interference \<Rightarrow> world \<Rightarrow> int \<Rightarrow> nat \<Rightarrow> int \<Rightarrow> (world \<times> interference) res" where
  "semop_wait [] w oid n d = (case semop w oid n d of Inl e \<Rightarrow> Inl e | Inr (r, w') \<Rightarrow> Inr (w', []))"
| "semop_wait (e # es) w oid n d =
     (case semop w oid n d of
        Inl x \<Rightarrow> semop_wait es (e w) oid n d
      | Inr (r, w') \<Rightarrow> Inr (w', e # es))"

lemma semop_wait_ok [sem_simps]:
  "semop w oid n d = Inr (r, w') \<Longrightarrow> semop_wait es w oid n d = Inr (w', es)"
  by (cases es) simp_all

lemma semop_wait_Nil_Inr:
  "semop_wait [] w oid n d = Inr x \<longleftrightarrow> (\<exists>r w'. semop w oid n d = Inr (r, w') \<and> x = (w', []))"
  by (auto split: sum.split)

lemma semop_up [sem_simps]:
  "sem_set w oid = Some vs \<Longrightarrow> n < length vs \<Longrightarrow> 0 \<le> vs ! n + d \<Longrightarrow> vs ! n + d \<le> SEMVMX \<Longrightarrow>
     semop w oid n d = Inr (0, w\<lparr>sem_set := (sem_set w)(oid := Some (vs[n := vs ! n + d]))\<rparr>)"
  by (simp add: semop_def)

lemma semop_gone [sem_simps]: "sem_set w oid = None \<Longrightarrow> semop w oid n d = Inr (-1, w)"
  by (simp add: semop_def)

lemma getval_set [sem_simps]:
  "sem_set w oid = Some vs \<Longrightarrow> n < length vs \<Longrightarrow> semctl_getval w oid n = vs ! n"
  by (simp add: semctl_getval_def)

lemma getval_gone [sem_simps]: "sem_set w oid = None \<Longrightarrow> semctl_getval w oid n = -1"
  by (simp add: semctl_getval_def)

lemma printf_fields [simp]:
  "shm_key (printf w s) = shm_key w" "shm_seg (printf w s) = shm_seg w"
  "sem_key (printf w s) = sem_key w" "sem_set (printf w s) = sem_set w"
  "next_id (printf w s) = next_id w" "out (printf w s) = out w @ s"
  by (simp_all add: printf_def)

lemma write_slot_ok [sem_simps]:
  "shm_seg w oid = Some sg \<Longrightarrow> in_seg sg i \<Longrightarrow>
     write_slot w (Some oid) i v = Inr (w\<lparr>shm_seg := (shm_seg w)(oid :=
       Some (sg\<lparr>seg_mem := (seg_mem sg)(nat i := v)\<rparr>))\<rparr>)"
  by (simp add: write_slot_def)

lemma read_slot_ok [sem_simps]:
  "shm_seg w oid = Some sg \<Longrightarrow> in_seg sg i \<Longrightarrow> read_slot w (Some oid) i = Inr (seg_mem sg (nat i))"
  by (simp add: read_slot_def)

end
