(* ===== verification/StackSpec.thy ===== *)
theory StackSpec
  imports Prelude
begin

section \<open>The contract of a bounded stack\<close>

text \<open>
  What a client of a bounded stack relies on: an insertion into a full stack and a removal
  from an empty one fail, any other insertion appends to the contents and any other removal
  takes the last element away; the capacity never changes. The lemmas say what sequences of
  operations do; \<open>ins_all\<close> and \<open>del_many\<close> are those sequences.
\<close>

fun ins_all :: "('v \<Rightarrow> 's \<Rightarrow> 's option) \<Rightarrow> 'v list \<Rightarrow> 's \<Rightarrow> 's option" where
  "ins_all ins [] s = Some s"
| "ins_all ins (v # vs) s = (case ins v s of None \<Rightarrow> None | Some s' \<Rightarrow> ins_all ins vs s')"

fun del_many :: "('s \<Rightarrow> ('v \<times> 's) option) \<Rightarrow> nat \<Rightarrow> 's \<Rightarrow> ('v list \<times> 's) option" where
  "del_many del 0 s = Some ([], s)"
| "del_many del (Suc n) s = (case del s of None \<Rightarrow> None | Some (v, s') \<Rightarrow>
     (case del_many del n s' of None \<Rightarrow> None | Some (vs, s'') \<Rightarrow> Some (v # vs, s'')))"

locale bounded_stack =
  fixes inv :: "'s \<Rightarrow> bool"
    and cap :: "'s \<Rightarrow> nat"
    and cont :: "'s \<Rightarrow> 'v list"
    and ins :: "'v \<Rightarrow> 's \<Rightarrow> 's option"
    and del :: "'s \<Rightarrow> ('v \<times> 's) option"
  assumes cont_cap: "inv s \<Longrightarrow> length (cont s) \<le> cap s"
    and ins_full: "inv s \<Longrightarrow> length (cont s) = cap s \<Longrightarrow> ins v s = None"
    and ins_room: "inv s \<Longrightarrow> length (cont s) < cap s \<Longrightarrow>
      \<exists>s'. ins v s = Some s' \<and> inv s' \<and> cap s' = cap s \<and> cont s' = cont s @ [v]"
    and del_empty: "inv s \<Longrightarrow> cont s = [] \<Longrightarrow> del s = None"
    and del_some: "inv s \<Longrightarrow> cont s \<noteq> [] \<Longrightarrow>
      \<exists>s'. del s = Some (last (cont s), s') \<and> inv s' \<and> cap s' = cap s \<and> cont s' = butlast (cont s)"
begin

lemma ins_all_room:
  "inv s \<Longrightarrow> length (cont s) + length vs \<le> cap s \<Longrightarrow>
     \<exists>s'. ins_all ins vs s = Some s' \<and> inv s' \<and> cap s' = cap s \<and> cont s' = cont s @ vs"
proof (induction vs arbitrary: s)
  case Nil
  then show ?case by simp
next
  case (Cons v vs)
  then obtain s1 where s1: "ins v s = Some s1" "inv s1" "cap s1 = cap s" "cont s1 = cont s @ [v]"
    using ins_room [of s v] by auto
  with Cons.prems Cons.IH [of s1] show ?case by auto
qed

lemma del_many_rev:
  "inv s \<Longrightarrow> cont s = ws @ vs \<Longrightarrow>
     \<exists>s'. del_many del (length vs) s = Some (rev vs, s') \<and> inv s' \<and> cap s' = cap s \<and> cont s' = ws"
proof (induction vs arbitrary: s rule: rev_induct)
  case Nil
  then show ?case by simp
next
  case (snoc v vs)
  then obtain s1 where s1: "del s = Some (v, s1)" "inv s1" "cap s1 = cap s" "cont s1 = ws @ vs"
    using del_some [of s] by (auto simp: butlast_append)
  with snoc.IH [of s1] show ?case by auto
qed

text \<open>Last in, first out: what was inserted comes back in reverse, the rest is untouched.\<close>

lemma lifo:
  assumes "inv s" "length (cont s) + length vs \<le> cap s"
  shows "\<exists>s1 s2. ins_all ins vs s = Some s1 \<and> del_many del (length vs) s1 = Some (rev vs, s2) \<and>
    inv s2 \<and> cap s2 = cap s \<and> cont s2 = cont s"
proof -
  obtain s1 where s1: "ins_all ins vs s = Some s1" "inv s1" "cap s1 = cap s" "cont s1 = cont s @ vs"
    using ins_all_room [OF assms] by auto
  then show ?thesis using del_many_rev [of s1 "cont s" vs] by auto
qed

lemma ins_all_overflow:
  assumes "inv s" "cap s < length (cont s) + length vs"
  shows "ins_all ins vs s = None"
  using assms
proof (induction vs arbitrary: s)
  case Nil
  then show ?case using cont_cap [of s] by simp
next
  case (Cons v vs)
  show ?case
  proof (cases "length (cont s) < cap s")
    case True
    then obtain s1 where s1: "ins v s = Some s1" "inv s1" "cap s1 = cap s" "cont s1 = cont s @ [v]"
      using ins_room [of s v] Cons.prems by auto
    with Cons.prems Cons.IH [of s1] show ?thesis by simp
  next
    case False
    then have "length (cont s) = cap s" using cont_cap Cons.prems(1) by force
    then show ?thesis using ins_full Cons.prems(1) by simp
  qed
qed

end

end
