(* ===== verification/ShmStack.thy ===== *)
theory ShmStack
  imports SysV StackSpec
begin

section \<open>The shared stack: \<open>sh_stack/stack.c\<close>\<close>

text \<open>
  A handle (\<open>struct stack_t\<close>) of a stack of pointers that lives in a shared segment. Three
  semaphores carry its state: number 0 the capacity, 1 the number of elements, 2 the lock.
  The operations below are the functions of \<open>stack.c\<close> in their order; each takes the
  kernel objects and returns them updated. \<open>malloc\<close> is assumed to succeed, as the code
  does.
\<close>

record stack_t =
  id_key :: int
  wait :: int
  sem :: int
  sh_stack :: "int option"
  tv_sec :: int
  tv_nsec :: int

subsection \<open>Attaching and detaching\<close>

definition attach_stack :: "world \<Rightarrow> int \<Rightarrow> int \<Rightarrow> stack_t option \<times> world" where
  "attach_stack w key sz =
     (let (id0, w) = shmget w key sz False;
          (oid, sm, w) =
            (if 0 < id0 then
               let (oid, w) = shmget w key sz True;
                   (sm, w) = semget w key 3 False;
                   w = semctl_setval w sm 2 1
               in (oid, sm, w)
             else
               let (oid, w) = shmget w key sz True;
                   (sm, w) = semget w key 3 True;
                   w = semctl_setval w sm 0 sz;
                   w = semctl_setval w sm 1 0;
                   w = semctl_setval w sm 2 1
               in (oid, sm, w));
          (p, w) = shmat w oid
      in if oid \<le> 0 then (None, w)
         else (Some \<lparr>id_key = oid, wait = -1, sem = sm, sh_stack = p, tv_sec = 0, tv_nsec = 0\<rparr>, w))"

definition detach_stack :: "world \<Rightarrow> stack_t \<Rightarrow> int \<times> world" where
  "detach_stack w st = shmdt w (sh_stack st)"

definition mark_destruct :: "world \<Rightarrow> stack_t \<Rightarrow> int \<times> world" where
  "mark_destruct w st =
     (let (_, w) = shmdt w (sh_stack st);
          (ret, w) = shmctl_rmid w (id_key st);
          w = printf w (''stack with return '' @ show_int ret @ '' have been destructed'' @ [CHR 0x0A]);
          w = semctl_rmid w (sem st)
      in (ret, w))"

definition get_size :: "world \<Rightarrow> stack_t \<Rightarrow> int" where
  "get_size w st = semctl_getval w (sem st) 0"

definition get_count :: "world \<Rightarrow> stack_t \<Rightarrow> int" where
  "get_count w st = semctl_getval w (sem st) 1"

subsection \<open>Push and pop\<close>

text \<open>
  \<open>spin stop\<close> is the busy wait \<open>while (count == stop) count = semctl(sem, 1, GETVAL)\<close>:
  before each read the other processes may have run.
\<close>

fun spin :: "interference \<Rightarrow> world \<Rightarrow> stack_t \<Rightarrow> int \<Rightarrow> int \<Rightarrow> (int \<times> world \<times> interference) res" where
  "spin [] w st stop count = (if count = stop then Inl Blocked else Inr (count, w, []))"
| "spin (e # es) w st stop count =
     (if count = stop then spin es (e w) st stop (get_count (e w) st)
      else Inr (count, w, e # es))"

definition nanosleep :: "interference \<Rightarrow> world \<Rightarrow> world \<times> interference" where
  "nanosleep es w = (case es of [] \<Rightarrow> (w, []) | e # es' \<Rightarrow> (e w, es'))"

text \<open>
  \<open>await\<close> is the part of \<open>push\<close> (\<open>pop\<close>) under \<open>count == sz\<close> (\<open>count == 0\<close>): \<open>None\<close> is
  the early \<open>return -1\<close>, \<open>Some count\<close> falls through with the count read last.
\<close>

definition forever_msg :: "string \<Rightarrow> string" where
  "forever_msg what = what @ '', wait flag is 0, waiting infinetely...'' @ [CHR 0x0A]"

definition timeout_msg :: "string \<Rightarrow> stack_t \<Rightarrow> string" where
  "timeout_msg what st = what @ '', wait flag is 1, waiting for '' @ show_int (tv_sec st)
     @ '' seconds and '' @ show_int (tv_nsec st) @ '' nanoseconds'' @ [CHR 0x0A]"

definition await ::
    "string \<Rightarrow> interference \<Rightarrow> world \<Rightarrow> stack_t \<Rightarrow> int \<Rightarrow> int \<Rightarrow> (int option \<times> world \<times> interference) res" where
  "await what es w st stop count =
     (if wait st = -1 then Inr (None, w, es)
      else if wait st = 0 then
        rbind (spin es (printf w (forever_msg what)) st stop count)
          (\<lambda>(count, w, es). Inr (Some count, w, es))
      else if wait st = 1 then
        (let w = printf w (timeout_msg what st);
             (w, es) = nanosleep es w;
             w = printf w ''timeout is ended, '';
             count = get_count w st
         in Inr (if count = stop then None else Some count, w, es))
      else Inr (Some count, w, es))"

definition push_locked :: "interference \<Rightarrow> world \<Rightarrow> stack_t \<Rightarrow> int \<Rightarrow> voidp \<Rightarrow> (int \<times> world) res" where
  "push_locked es w st count val =
     rbind (semop_wait es w (sem st) 2 (-1)) (\<lambda>(w, es).
     rbind (write_slot w (sh_stack st) count val) (\<lambda>w.
     rbind (semop_wait es w (sem st) 1 1) (\<lambda>(w, es).
     rbind (semop_wait es w (sem st) 2 1) (\<lambda>(w, es).
     Inr (0, w)))))"

definition push :: "interference \<Rightarrow> world \<Rightarrow> stack_t \<Rightarrow> voidp \<Rightarrow> (int \<times> world) res" where
  "push es w st val =
     (let sz = get_size w st;
          count = get_count w st
      in rbind (if count = sz then await ''stack is overflowed'' es w st sz count
                else Inr (Some count, w, es))
        (\<lambda>(c, w, es). case c of
             None \<Rightarrow> Inr (-1, w)
           | Some count \<Rightarrow> push_locked es w st count val))"

definition pop_locked :: "interference \<Rightarrow> world \<Rightarrow> stack_t \<Rightarrow> int \<Rightarrow> (int \<times> voidp option \<times> world) res" where
  "pop_locked es w st count =
     rbind (semop_wait es w (sem st) 2 (-1)) (\<lambda>(w, es).
     rbind (read_slot w (sh_stack st) (count - 1)) (\<lambda>val.
     rbind (semop_wait es w (sem st) 1 (-1)) (\<lambda>(w, es).
     rbind (semop_wait es w (sem st) 2 1) (\<lambda>(w, es).
     Inr (0, Some val, w)))))"

definition pop :: "interference \<Rightarrow> world \<Rightarrow> stack_t \<Rightarrow> (int \<times> voidp option \<times> world) res" where
  "pop es w st =
     (let count = get_count w st
      in rbind (if count = 0 then await ''stack is empty'' es w st 0 count
                else Inr (Some count, w, es))
        (\<lambda>(c, w, es). case c of
             None \<Rightarrow> Inr (-1, None, w)
           | Some count \<Rightarrow> pop_locked es w st count))"

definition set_wait :: "stack_t \<Rightarrow> int \<Rightarrow> int \<times> int \<Rightarrow> int \<times> stack_t" where
  "set_wait st val timeout =
     (let st = st\<lparr>wait := val\<rparr>;
          st = (if val = 1 then st\<lparr>tv_sec := fst timeout, tv_nsec := snd timeout\<rparr> else st)
      in (0, st))"

subsection \<open>Printing\<close>

fun show_hex :: "nat \<Rightarrow> string" where
  "show_hex n = (if n < 16 then [''0123456789abcdef'' ! n] else show_hex (n div 16) @ [''0123456789abcdef'' ! (n mod 16)])"

declare show_hex.simps [simp del]

definition show_ptr :: "voidp \<Rightarrow> string" where
  "show_ptr p = (if p = 0 then ''(nil)'' else ''0x'' @ show_hex (unat p))"

function print_slots :: "world \<Rightarrow> stack_t \<Rightarrow> int \<Rightarrow> int \<Rightarrow> world res" where
  "print_slots w st i count =
     (if i < count then
        rbind (read_slot w (sh_stack st) i) (\<lambda>v.
          print_slots (printf w (show_ptr v @ (if i \<noteq> count - 1 then '', '' else []))) st (i + 1) count)
      else Inr w)"
  by pat_completeness auto
termination
  by (relation "measure (\<lambda>(w, st, i, count). nat (count - i))") auto

declare print_slots.simps [simp del]

definition print_all :: "interference \<Rightarrow> world \<Rightarrow> stack_t \<Rightarrow> (int \<times> world) res" where
  "print_all es w st =
     (let sz = semctl_getval w (sem st) 0;
          count = semctl_getval w (sem st) 1
      in rbind (semop_wait es w (sem st) 2 (-1)) (\<lambda>(w, es).
         rbind (print_slots (printf w (''size is '' @ show_int sz @ '', count is '' @ show_int count
                  @ '', stack is {'')) st 0 count) (\<lambda>w.
         rbind (semop_wait es (printf w (''}'' @ [CHR 0x0A])) (sem st) 2 1) (\<lambda>(w, es).
         Inr (0, w)))))"

subsection \<open>The well-formed stack and the list it holds\<close>

text \<open>
  \<open>stack_at w st n cap cnt sg\<close>: the handle reaches segment \<open>sg\<close> (number \<open>n\<close>) and a
  semaphore set with capacity \<open>cap\<close>, \<open>cnt\<close> elements and a free lock, and the elements lie
  in the segment. \<open>stack_inv\<close> adds that the segment has room for the whole capacity.
  \<open>elems\<close> is the abstract stack, oldest element first.
\<close>

definition stack_at :: "world \<Rightarrow> stack_t \<Rightarrow> int \<Rightarrow> int \<Rightarrow> int \<Rightarrow> seg \<Rightarrow> bool" where
  "stack_at w st n cap cnt sg \<longleftrightarrow>
     sem_set w (sem st) = Some [cap, cnt, 1] \<and> sh_stack st = Some n \<and> shm_seg w n = Some sg \<and>
     0 \<le> cnt \<and> cnt \<le> cap \<and> cap \<le> SEMVMX \<and> 8 * cnt \<le> mapped (seg_size sg)"

definition stack_inv :: "world \<Rightarrow> stack_t \<Rightarrow> bool" where
  "stack_inv w st \<longleftrightarrow>
     (\<exists>n cap cnt sg. stack_at w st n cap cnt sg \<and> 8 * cap \<le> mapped (seg_size sg))"

definition elems :: "world \<Rightarrow> stack_t \<Rightarrow> voidp list" where
  "elems w st = (case sh_stack st of None \<Rightarrow> [] | Some n \<Rightarrow>
     (case shm_seg w n of None \<Rightarrow> [] | Some sg \<Rightarrow> map (seg_mem sg) [0..<nat (get_count w st)]))"

lemma stack_invE [elim]:
  assumes "stack_inv w st"
  obtains n cap cnt sg where "stack_at w st n cap cnt sg" "8 * cap \<le> mapped (seg_size sg)"
  using assms by (auto simp: stack_inv_def)

lemma stack_at_inv: "stack_at w st n cap cnt sg \<Longrightarrow> 8 * cap \<le> mapped (seg_size sg) \<Longrightarrow> stack_inv w st"
  by (auto simp: stack_inv_def)

lemma stack_at_reads [sem_simps]:
  assumes "stack_at w st n cap cnt sg"
  shows "get_size w st = cap" "get_count w st = cnt"
    "semctl_getval w (sem st) 0 = cap" "semctl_getval w (sem st) (Suc 0) = cnt"
    "elems w st = map (seg_mem sg) [0..<nat cnt]" "sh_stack st = Some n"
  using assms by (simp_all add: stack_at_def get_size_def get_count_def elems_def semctl_getval_def)

text \<open>The kernel state after a push and after a pop that went through.\<close>

definition pushed :: "world \<Rightarrow> stack_t \<Rightarrow> int \<Rightarrow> int \<Rightarrow> int \<Rightarrow> seg \<Rightarrow> voidp \<Rightarrow> world" where
  "pushed w st n cap cnt sg v =
     w\<lparr>shm_seg := (shm_seg w)(n \<mapsto> sg\<lparr>seg_mem := (seg_mem sg)(nat cnt := v)\<rparr>),
       sem_set := (sem_set w)(sem st \<mapsto> [cap, cnt + 1, 1])\<rparr>"

definition popped :: "world \<Rightarrow> stack_t \<Rightarrow> int \<Rightarrow> int \<Rightarrow> world" where
  "popped w st cap cnt = w\<lparr>sem_set := (sem_set w)(sem st \<mapsto> [cap, cnt - 1, 1])\<rparr>"

lemma push_locked_run:
  assumes "stack_at w st n cap cnt sg" "cnt < cap" "8 * (cnt + 1) \<le> mapped (seg_size sg)"
  shows "push_locked es w st cnt v = Inr (0, pushed w st n cap cnt sg v)"
proof -
  note a = assms(1) [unfolded stack_at_def]
  have g: "in_seg sg cnt" using a assms(3) by (simp add: in_seg_def)
  show ?thesis
    using a assms(2) g
    by (simp add: push_locked_def semop_wait_ok semop_def SEMVMX_def write_slot_def pushed_def)
qed

lemma push_run:
  assumes "stack_at w st n cap cnt sg" "cnt < cap" "8 * (cnt + 1) \<le> mapped (seg_size sg)"
  shows "push es w st v = Inr (0, pushed w st n cap cnt sg v)"
  using push_locked_run [OF assms] assms by (simp add: push_def stack_at_reads)

lemma push_full_run:
  assumes "stack_at w st n cap cnt sg" "cnt = cap" "wait st = -1"
  shows "push es w st v = Inr (-1, w)"
  using assms by (simp add: push_def stack_at_reads await_def)

lemma push_spin_run:
  assumes "stack_at w st n cap cap sg" "wait st = 0"
    and "spin es (printf w (forever_msg ''stack is overflowed'')) st cap cap = Inr (cnt, w', es')"
    and "stack_at w' st n cap cnt sg'" "cnt < cap" "8 * (cnt + 1) \<le> mapped (seg_size sg')"
  shows "push es w st v = Inr (0, pushed w' st n cap cnt sg' v)"
  using push_locked_run [OF assms(4-6)] assms(1-3) by (simp add: push_def stack_at_reads await_def)

lemma pop_locked_run:
  assumes "stack_at w st n cap cnt sg" "0 < cnt"
  shows "pop_locked es w st cnt = Inr (0, Some (seg_mem sg (nat (cnt - 1))), popped w st cap cnt)"
proof -
  note a = assms(1) [unfolded stack_at_def]
  have g: "in_seg sg (cnt - 1)" using a assms(2) by (simp add: in_seg_def)
  show ?thesis
    using a assms(2) g
    by (simp add: pop_locked_def semop_wait_ok semop_def SEMVMX_def read_slot_def popped_def)
qed

lemma pop_run:
  assumes "stack_at w st n cap cnt sg" "0 < cnt"
  shows "pop es w st = Inr (0, Some (seg_mem sg (nat (cnt - 1))), popped w st cap cnt)"
  using pop_locked_run [OF assms] assms by (simp add: pop_def stack_at_reads)

lemma pop_empty_run:
  assumes "stack_at w st n cap 0 sg" "wait st = -1"
  shows "pop es w st = Inr (-1, None, w)"
  using assms by (simp add: pop_def stack_at_reads await_def)

lemma pushed_at:
  assumes "stack_at w st n cap cnt sg" "cnt < cap" "8 * (cnt + 1) \<le> mapped (seg_size sg)"
  shows "stack_at (pushed w st n cap cnt sg v) st n cap (cnt + 1)
    (sg\<lparr>seg_mem := (seg_mem sg)(nat cnt := v)\<rparr>)"
  using assms by (simp add: stack_at_def pushed_def)

lemma popped_at:
  assumes "stack_at w st n cap cnt sg" "0 < cnt"
  shows "stack_at (popped w st cap cnt) st n cap (cnt - 1) sg"
  using assms by (simp add: stack_at_def popped_def)

lemma elems_pushed:
  assumes "stack_at w st n cap cnt sg" "cnt < cap" "8 * (cnt + 1) \<le> mapped (seg_size sg)"
  shows "elems (pushed w st n cap cnt sg v) st = elems w st @ [v]"
proof -
  have "nat (cnt + 1) = Suc (nat cnt)"
    using assms(1) by (simp add: stack_at_def nat_add_distrib)
  then show ?thesis
    using pushed_at [OF assms, of v] assms(1) by (simp add: stack_at_reads map_upto_snoc)
qed

lemma elems_popped:
  assumes "stack_at w st n cap cnt sg" "0 < cnt"
  shows "elems (popped w st cap cnt) st = butlast (elems w st)"
    and "last (elems w st) = seg_mem sg (nat (cnt - 1))"
proof -
  have "nat (cnt - 1) = nat cnt - 1" "0 < nat cnt" using assms(2) by (simp_all add: nat_diff_distrib)
  then show "elems (popped w st cap cnt) st = butlast (elems w st)"
    "last (elems w st) = seg_mem sg (nat (cnt - 1))"
    using popped_at [OF assms] assms(1)
    by (simp_all add: stack_at_reads butlast_map_upto last_map_upto)
qed

subsection \<open>The contract\<close>

text \<open>
  A client's view: the state is the kernel objects and a handle that does not wait
  (\<open>wait == -1\<close>, as \<open>attach_stack\<close> sets it); the return code -1 is the failure.
\<close>

definition cli_inv :: "world \<times> stack_t \<Rightarrow> bool" where
  "cli_inv s \<longleftrightarrow> stack_inv (fst s) (snd s) \<and> wait (snd s) = -1"

definition cli_cap :: "world \<times> stack_t \<Rightarrow> nat" where
  "cli_cap s = nat (get_size (fst s) (snd s))"

definition cli_elems :: "world \<times> stack_t \<Rightarrow> voidp list" where
  "cli_elems s = elems (fst s) (snd s)"

definition cli_push :: "voidp \<Rightarrow> world \<times> stack_t \<Rightarrow> (world \<times> stack_t) option" where
  "cli_push v s = (case push [] (fst s) (snd s) v of
       Inr (r, w) \<Rightarrow> if r = 0 then Some (w, snd s) else None
     | Inl e \<Rightarrow> None)"

definition cli_pop :: "world \<times> stack_t \<Rightarrow> (voidp \<times> world \<times> stack_t) option" where
  "cli_pop s = (case pop [] (fst s) (snd s) of
       Inr (r, Some v, w) \<Rightarrow> if r = 0 then Some (v, w, snd s) else None
     | _ \<Rightarrow> None)"

lemma stack_at_length:
  "stack_at w st n cap cnt sg \<Longrightarrow> length (elems w st) = nat cnt"
  by (simp add: stack_at_reads)

lemma stack_at_cnt: "stack_at w st n cap cnt sg \<Longrightarrow> 0 \<le> cnt \<and> cnt \<le> cap"
  by (simp add: stack_at_def)

interpretation shm: bounded_stack cli_inv cli_cap cli_elems cli_push cli_pop
proof (unfold_locales, goal_cases)
  case (1 s)
  then show ?case
    by (auto simp: cli_inv_def cli_cap_def cli_elems_def stack_at_length stack_at_reads
        intro!: nat_mono elim!: stack_invE) (auto dest: stack_at_cnt)
next
  case (2 s v)
  then obtain n cap cnt sg where a: "stack_at (fst s) (snd s) n cap cnt sg"
    and m: "8 * cap \<le> mapped (seg_size sg)" and w: "wait (snd s) = -1"
    by (auto simp: cli_inv_def)
  with 2(2) stack_at_cnt [OF a] have "cnt = cap"
    by (simp add: cli_cap_def cli_elems_def stack_at_length stack_at_reads eq_nat_nat_iff)
  then show ?case using push_full_run [OF a _ w] by (simp add: cli_push_def)
next
  case (3 s v)
  then obtain n cap cnt sg where a: "stack_at (fst s) (snd s) n cap cnt sg"
    and m: "8 * cap \<le> mapped (seg_size sg)" and w: "wait (snd s) = -1"
    by (auto simp: cli_inv_def)
  with 3(2) stack_at_cnt [OF a] have lt: "cnt < cap"
    by (simp add: cli_cap_def cli_elems_def stack_at_length stack_at_reads)
  then have m1: "8 * (cnt + 1) \<le> mapped (seg_size sg)" using m by simp
  let ?w = "pushed (fst s) (snd s) n cap cnt sg v"
  have "cli_push v s = Some (?w, snd s)"
    using push_run [OF a lt m1] by (simp add: cli_push_def)
  moreover have "get_size ?w (snd s) = get_size (fst s) (snd s)"
    by (simp only: stack_at_reads(1) [OF pushed_at [OF a lt m1]] stack_at_reads(1) [OF a])
  ultimately show ?case
    using elems_pushed [OF a lt m1] stack_at_inv [OF pushed_at [OF a lt m1]] m w
    by (simp add: cli_inv_def cli_cap_def cli_elems_def)
next
  case (4 s)
  then obtain n cap cnt sg where a: "stack_at (fst s) (snd s) n cap cnt sg"
    and m: "8 * cap \<le> mapped (seg_size sg)" and w: "wait (snd s) = -1"
    by (auto simp: cli_inv_def)
  with 4(2) stack_at_cnt [OF a] stack_at_length [OF a] have "cnt = 0"
    by (simp add: cli_elems_def)
  then show ?case using pop_empty_run [of "fst s" "snd s"] a w by (simp add: cli_pop_def)
next
  case (5 s)
  then obtain n cap cnt sg where a: "stack_at (fst s) (snd s) n cap cnt sg"
    and m: "8 * cap \<le> mapped (seg_size sg)" and w: "wait (snd s) = -1"
    by (auto simp: cli_inv_def)
  with 5(2) stack_at_cnt [OF a] have pos: "0 < cnt"
    by (cases "cnt = 0") (simp_all add: cli_elems_def stack_at_reads)
  let ?w = "popped (fst s) (snd s) cap cnt"
  have "cli_pop s = Some (last (elems (fst s) (snd s)), ?w, snd s)"
    using pop_run [OF a pos] elems_popped(2) [OF a pos] by (simp add: cli_pop_def)
  moreover have "get_size ?w (snd s) = get_size (fst s) (snd s)"
    using popped_at [OF a pos] a by (simp add: stack_at_reads)
  ultimately show ?case
    using elems_popped(1) [OF a pos] stack_at_inv [OF popped_at [OF a pos] m] w
    by (simp add: cli_inv_def cli_cap_def cli_elems_def)
qed

end
