(* ===== verification/StackProps.thy ===== *)
theory StackProps
  imports ShmStack
begin

section \<open>Properties of the shared stack\<close>

text \<open>
  The functional behaviour of every operation of \<open>stack.c\<close> on a stack no other process
  is changing, waiting included, and what attaching, destroying and an undersized segment
  do to the processes that share it.
\<close>

subsection \<open>A concrete stack\<close>

text \<open>
  The witnesses run on a stack of capacity 5 under key 7 whose slot \<open>i\<close> holds the pointer
  \<open>100 + i\<close> and of which \<open>c\<close> slots are in use.
\<close>

definition demo_seg :: seg where
  "demo_seg = \<lparr>seg_size = 5, seg_mem = (\<lambda>i. 100 + of_nat i), seg_nattch = 1, seg_dest = False\<rparr>"

definition demo :: "int \<Rightarrow> world" where
  "demo c = \<lparr>shm_key = [7 \<mapsto> 1], shm_seg = [1 \<mapsto> demo_seg],
     sem_key = [7 \<mapsto> 2], sem_set = [2 \<mapsto> [5, c, 1]], next_id = 3, out = []\<rparr>"

definition demo_st :: "int \<Rightarrow> stack_t" where
  "demo_st m = \<lparr>id_key = 1, wait = m, sem = 2, sh_stack = Some 1, tv_sec = 0, tv_nsec = 0\<rparr>"

definition no_objects :: world where
  "no_objects = \<lparr>shm_key = Map.empty, shm_seg = Map.empty, sem_key = Map.empty, sem_set = Map.empty,
     next_id = 1, out = []\<rparr>"

lemma demo_at:
  "0 \<le> c \<Longrightarrow> c \<le> 5 \<Longrightarrow> stack_at (demo c) (demo_st m) 1 5 c demo_seg"
  by (simp add: demo_def demo_st_def stack_at_def SEMVMX_def mapped_one_page demo_seg_def)

lemma demo_seg_mem: "seg_mem demo_seg i = 100 + of_nat i"
  by (simp add: demo_seg_def)

lemma demo_room: "8 * 5 \<le> mapped (seg_size demo_seg)"
  by (simp add: demo_seg_def mapped_one_page)

lemma demo_inv: "0 \<le> c \<Longrightarrow> c \<le> 5 \<Longrightarrow> stack_inv (demo c) (demo_st m)"
  using demo_at demo_room by (rule stack_at_inv)

lemma demo_reads:
  "get_size (demo c) (demo_st m) = 5" "get_count (demo c) (demo_st m) = c"
  "elems (demo c) (demo_st m) = map (\<lambda>i. 100 + of_nat i) [0..<nat c]"
  by (simp_all add: demo_def demo_st_def get_size_def get_count_def elems_def semctl_getval_def demo_seg_def)

lemma demo_st_reads [simp]:
  "wait (demo_st m) = m" "sem (demo_st m) = 2" "sh_stack (demo_st m) = Some 1" "id_key (demo_st m) = 1"
  by (simp_all add: demo_st_def)

subsection \<open>Push, pop and the order of elements\<close>

lemma ins_all_handle: "ins_all cli_push vs s = Some s1 \<Longrightarrow> snd s1 = snd s"
  by (induction vs arbitrary: s)
    (auto simp: cli_push_def split: option.splits sum.splits if_splits)

lemma del_many_handle: "del_many cli_pop n s = Some (vs, s1) \<Longrightarrow> snd s1 = snd s"
  by (induction n arbitrary: s vs s1)
    (auto simp: cli_pop_def split: option.splits sum.splits if_splits)

text \<open>C15: on a well-formed stack that is not full, \<open>push\<close> returns 0, appends the pointer to
  the stack's elements, keeps the capacity and the well-formedness, prints nothing and leaves
  every other segment and semaphore set as it was, whatever the wait mode.\<close>
theorem push_appends:
  assumes "stack_inv w st" and "int (length (elems w st)) < get_size w st"
  shows "\<exists>w'. push es w st v = Inr (0, w') \<and> stack_inv w' st \<and>
    elems w' st = elems w st @ [v] \<and> get_size w' st = get_size w st \<and>
    get_count w' st = get_count w st + 1 \<and> out w' = out w \<and>
    (\<forall>n. sh_stack st \<noteq> Some n \<longrightarrow> shm_seg w' n = shm_seg w n) \<and>
    (\<forall>i. i \<noteq> sem st \<longrightarrow> sem_set w' i = sem_set w i)"
proof -
  from assms(1) obtain n cap cnt sg where a: "stack_at w st n cap cnt sg"
    and m: "8 * cap \<le> mapped (seg_size sg)" ..
  with assms(2) stack_at_cnt [OF a] have lt: "cnt < cap"
    by (simp add: stack_at_length stack_at_reads)
  then have m1: "8 * (cnt + 1) \<le> mapped (seg_size sg)" using m by simp
  have p: "stack_at (pushed w st n cap cnt sg v) st n cap (cnt + 1)
      (sg\<lparr>seg_mem := (seg_mem sg)(nat cnt := v)\<rparr>)"
    by (rule pushed_at [OF a lt m1])
  show ?thesis
    using push_run [OF a lt m1] elems_pushed [OF a lt m1] stack_at_inv [OF p] p a m
    by (auto simp: stack_at_reads pushed_def)
qed

theorem push_appends_witness:
  "\<exists>w'. push [] (demo 2) (demo_st 0) 9 = Inr (0, w') \<and> elems w' (demo_st 0) = [100, 101, 9]"
  using push_appends [OF demo_inv, of 2 0 "[]" 9] by (auto simp: demo_reads numeral_2_eq_2)

text \<open>On a well-formed stack that is not empty, \<open>pop\<close> returns 0, stores the element pushed
  last, removes exactly it, keeps the capacity and writes no segment at all.\<close>
theorem pop_takes_last:
  assumes "stack_inv w st" and "elems w st \<noteq> []"
  shows "\<exists>w'. pop es w st = Inr (0, Some (last (elems w st)), w') \<and> stack_inv w' st \<and>
    elems w' st = butlast (elems w st) \<and> get_size w' st = get_size w st \<and>
    get_count w' st = get_count w st - 1 \<and> shm_seg w' = shm_seg w \<and> out w' = out w"
proof -
  from assms(1) obtain n cap cnt sg where a: "stack_at w st n cap cnt sg"
    and m: "8 * cap \<le> mapped (seg_size sg)" ..
  with assms(2) stack_at_cnt [OF a] have pos: "0 < cnt"
    by (cases "cnt = 0") (simp_all add: stack_at_reads)
  note p = popped_at [OF a pos]
  show ?thesis
    using pop_run [OF a pos] elems_popped [OF a pos] stack_at_inv [OF p m] p a
    by (auto simp: stack_at_reads popped_def)
qed

theorem pop_takes_last_witness:
  "\<exists>w'. pop [] (demo 2) (demo_st 0) = Inr (0, Some 101, w') \<and> elems w' (demo_st 0) = [100]"
  using pop_takes_last [OF demo_inv, of 2 0 "[]"] by (auto simp: demo_reads numeral_2_eq_2)

text \<open>With \<open>wait == -1\<close> a full stack refuses a push and an empty stack a pop, both with -1,
  and neither changes the kernel objects nor prints.\<close>
theorem refused_without_waiting:
  assumes "stack_inv w st" and "wait st = -1"
  shows "(get_count w st = get_size w st \<longrightarrow> push es w st v = Inr (-1, w)) \<and>
    (elems w st = [] \<longrightarrow> pop es w st = Inr (-1, None, w))"
proof -
  from assms(1) obtain n cap cnt sg where a: "stack_at w st n cap cnt sg"
    by (rule stack_invE)
  have "cnt = 0" if "elems w st = []"
    using stack_at_length [OF a] stack_at_cnt [OF a] that by simp
  then show ?thesis
    using push_full_run [OF a _ assms(2)] pop_empty_run assms(2) a by (auto simp: stack_at_reads)
qed

theorem refused_without_waiting_witness:
  "push [] (demo 5) (demo_st (-1)) 9 = Inr (-1, demo 5) \<and>
   pop [] (demo 0) (demo_st (-1)) = Inr (-1, None, demo 0)"
  using refused_without_waiting [OF demo_inv, of 5 "-1" "[]" 9]
    refused_without_waiting [OF demo_inv, of 0 "-1" "[]" 9] by (simp add: demo_reads)

text \<open>C9: last in, first out across whole sequences: pushing a list that fits and popping as many
  elements gives it back reversed and leaves the older elements as they were.\<close>
theorem push_pop_lifo:
  assumes "stack_inv w st" and "wait st = -1"
    and "int (length (elems w st) + length vs) \<le> get_size w st"
  shows "\<exists>s1 w2. ins_all cli_push vs (w, st) = Some s1 \<and>
    del_many cli_pop (length vs) s1 = Some (rev vs, w2, st) \<and>
    stack_inv w2 st \<and> elems w2 st = elems w st"
proof -
  have i: "cli_inv (w, st)" using assms(1,2) by (simp add: cli_inv_def)
  have "length (cli_elems (w, st)) + length vs \<le> cli_cap (w, st)"
    using assms(3) by (simp add: cli_elems_def cli_cap_def le_nat_iff)
  from shm.lifo [OF i this] obtain s1 s2 where
    s: "ins_all cli_push vs (w, st) = Some s1" "del_many cli_pop (length vs) s1 = Some (rev vs, s2)"
      "cli_inv s2" "cli_elems s2 = cli_elems (w, st)" by blast
  have "snd s1 = st" using s(1) ins_all_handle by fastforce
  then have "snd s2 = st" using s(2) del_many_handle by fastforce
  with s show ?thesis
    by (cases s2) (auto simp: cli_inv_def cli_elems_def)
qed

theorem push_pop_lifo_witness:
  "\<exists>s1 w2. ins_all cli_push [7, 8, 9] (demo 2, demo_st (-1)) = Some s1 \<and>
    del_many cli_pop 3 s1 = Some ([9, 8, 7], w2, demo_st (-1)) \<and> elems w2 (demo_st (-1)) = [100, 101]"
  using push_pop_lifo [OF demo_inv, of 2 "-1" "[7, 8, 9]"]
  by (auto simp: demo_reads numeral_2_eq_2 numeral_3_eq_3)

subsection \<open>Waiting\<close>

lemma stack_at_printf [simp]: "stack_at (printf w t) st n cap cnt sg = stack_at w st n cap cnt sg"
  by (simp add: stack_at_def)

lemma get_count_printf [simp]: "get_count (printf w t) st = get_count w st"
  by (simp add: get_count_def semctl_getval_def)

lemma spin_idle:
  "get_count w st = stop \<Longrightarrow>
     spin (replicate k (\<lambda>u. u) @ es) w st stop stop = spin es w st stop stop"
  by (induction k) simp_all

lemma spin_blocked:
  "(\<forall>e\<in>set es. \<forall>u. get_count u st = stop \<longrightarrow> get_count (e u) st = stop) \<Longrightarrow>
     get_count w st = stop \<Longrightarrow> spin es w st stop stop = Inl Blocked"
  by (induction es arbitrary: w) auto

text \<open>The complete \<open>pop\<close> of another process, through its own handle.\<close>

definition other_pop :: "stack_t \<Rightarrow> world \<Rightarrow> world" where
  "other_pop st w = (case pop [] w st of Inl e \<Rightarrow> w | Inr (r, v, w') \<Rightarrow> w')"

lemma same_handle_at:
  "sem st' = sem st \<Longrightarrow> sh_stack st' = sh_stack st \<Longrightarrow>
     stack_at w st' n cap cnt sg = stack_at w st n cap cnt sg"
  by (simp add: stack_at_def)

text \<open>With \<open>wait == 0\<close> a push on a full stack waits until another process pops, and then
  goes through: it returns 0 and the new element takes the place of the one popped.\<close>
theorem push_waits_for_pop:
  assumes "stack_inv w st" and "wait st = 0" and "get_count w st = get_size w st"
    and "0 < get_size w st" and "sem st' = sem st" and "sh_stack st' = sh_stack st"
  shows "\<exists>w'. push (replicate k (\<lambda>u. u) @ other_pop st' # es) w st v = Inr (0, w') \<and>
    stack_inv w' st \<and> elems w' st = butlast (elems w st) @ [v]"
proof -
  from assms(1) obtain n cap cnt sg where a: "stack_at w st n cap cnt sg"
    and m: "8 * cap \<le> mapped (seg_size sg)" ..
  with assms(3,4) have c: "cnt = cap" "0 < cap" by (simp_all add: stack_at_reads)
  let ?m = "forever_msg ''stack is overflowed''"
  let ?p = "popped (printf w ?m) st cap cap"
  have a1: "stack_at (printf w ?m) st n cap cap sg" using a c by simp
  have "stack_at (printf w ?m) st' n cap cap sg"
    using a1 same_handle_at [OF assms(5,6)] by simp
  then have o: "other_pop st' (printf w ?m) = ?p"
    using pop_run [of "printf w ?m" st' n cap cap sg "[]"] c assms(5)
    by (simp add: other_pop_def popped_def)
  have a2: "stack_at ?p st n cap (cap - 1) sg" using popped_at [OF a1] c by simp
  let ?w = "pushed ?p st n cap (cap - 1) sg v"
  have "spin (replicate k (\<lambda>u. u) @ other_pop st' # es) (printf w ?m) st cap cap
      = spin es ?p st cap (cap - 1)"
    using a1 a2 o by (simp add: spin_idle stack_at_reads)
  also have "\<dots> = Inr (cap - 1, ?p, es)" by (cases es) simp_all
  finally have s: "spin (replicate k (\<lambda>u. u) @ other_pop st' # es) (printf w ?m) st cap cap
      = Inr (cap - 1, ?p, es)" .
  have r: "push (replicate k (\<lambda>u. u) @ other_pop st' # es) w st v = Inr (0, ?w)"
    using a c(1) by (intro push_spin_run [OF _ assms(2) s a2]) (use m in simp_all)
  have "elems ?w st = elems ?p st @ [v]" by (rule elems_pushed [OF a2]) (use m in simp_all)
  also have "elems ?p st = butlast (elems w st)"
    using elems_popped(1) [OF a1] c a1 a by (simp add: stack_at_reads)
  finally have "elems ?w st = butlast (elems w st) @ [v]" .
  with r stack_at_inv [OF pushed_at [OF a2]] m show ?thesis by auto
qed

theorem push_waits_for_pop_witness:
  "\<exists>w'. push (replicate 3 (\<lambda>u. u) @ [other_pop (demo_st (-1))]) (demo 5) (demo_st 0) 9 = Inr (0, w') \<and>
    elems w' (demo_st 0) = [100, 101, 102, 103, 9]"
  using push_waits_for_pop [OF demo_inv, of 5 0 "demo_st (-1)" 3 "[]" 9]
  by (auto simp: demo_reads eval_nat_numeral)

text \<open>With \<open>wait == 0\<close> a push on a full stack (a pop on an empty one) never returns while
  no other process changes the number of elements.\<close>
theorem waits_forever:
  assumes "wait st = 0"
    and "\<forall>e\<in>set es. \<forall>u. get_count u st = get_count w st \<longrightarrow> get_count (e u) st = get_count w st"
  shows "(get_count w st = get_size w st \<longrightarrow> push es w st v = Inl Blocked) \<and>
    (get_count w st = 0 \<longrightarrow> pop es w st = Inl Blocked)"
proof -
  have b: "spin es (printf w t) st (get_count w st) (get_count w st) = Inl Blocked" for t
    using spin_blocked [OF assms(2)] by simp
  have "push es w st v = Inl Blocked" if "get_count w st = get_size w st"
    using b [of "forever_msg ''stack is overflowed''"] that assms(1)
    by (simp add: push_def await_def)
  moreover have "pop es w st = Inl Blocked" if "get_count w st = 0"
    using b [of "forever_msg ''stack is empty''"] that assms(1)
    by (simp add: pop_def await_def)
  ultimately show ?thesis by blast
qed

theorem waits_forever_witness:
  "push [\<lambda>u. u, \<lambda>u. printf u ''x''] (demo 5) (demo_st 0) 9 = Inl Blocked \<and>
   pop [\<lambda>u. u, \<lambda>u. printf u ''x''] (demo 0) (demo_st 0) = Inl Blocked"
  using waits_forever [of "demo_st 0" "[\<lambda>u. u, \<lambda>u. printf u ''x'']" "demo 5" 9]
    waits_forever [of "demo_st 0" "[\<lambda>u. u, \<lambda>u. printf u ''x'']" "demo 0" 9]
  by (simp add: demo_reads)

subsection \<open>Attaching\<close>

text \<open>
  \<open>named w key st\<close>: the handle is the well-formed stack the kernel knows under \<open>key\<close>.
  \<open>sized w st n\<close>: its segment was created with size \<open>n\<close>.
\<close>

definition named :: "world \<Rightarrow> int \<Rightarrow> stack_t \<Rightarrow> bool" where
  "named w key st \<longleftrightarrow> stack_inv w st \<and> 0 < id_key st \<and> shm_key w key = Some (id_key st) \<and>
     sh_stack st = Some (id_key st) \<and> sem_key w key = Some (sem st)"

definition sized :: "world \<Rightarrow> stack_t \<Rightarrow> int \<Rightarrow> bool" where
  "sized w st n \<longleftrightarrow> (\<exists>sg. shm_seg w (id_key st) = Some sg \<and> seg_size sg = n)"

lemma namedE:
  assumes "named w key st"
  obtains cap cnt sg where "0 \<le> cnt \<and> cnt \<le> cap \<and> cap \<le> SEMVMX \<and> 8 * cap \<le> mapped (seg_size sg)" "0 < id_key st"
    "shm_key w key = Some (id_key st)" "sh_stack st = Some (id_key st)" "sem_key w key = Some (sem st)"
    "shm_seg w (id_key st) = Some sg" "sem_set w (sem st) = Some [cap, cnt, 1]"
  using assms that by (auto simp: named_def stack_inv_def stack_at_def)

text \<open>Attaching under a free key with a size between 1 and 512 creates an empty stack of that
  capacity, found again under the key, with waiting switched off.\<close>
theorem attach_creates:
  assumes "shm_key w key = None" and "sem_key w key = None" and "0 < next_id w"
    and "1 \<le> n" and "n \<le> 512"
  shows "\<exists>st w'. attach_stack w key n = (Some st, w') \<and> named w' key st \<and> sized w' st n \<and>
    elems w' st = [] \<and> get_size w' st = n \<and> wait st = -1"
  using assms mapped_one_page [OF assms(4)]
  by (simp add: attach_stack_def shmget_def semget_def semctl_setval_def shmat_def numeral_3_eq_3
      SEMVMX_def named_def sized_def stack_inv_def stack_at_def elems_def get_size_def get_count_def
      semctl_getval_def)

theorem attach_creates_witness:
  "\<exists>st w'. attach_stack no_objects 7 512 = (Some st, w') \<and> named w' 7 st \<and> get_size w' st = 512"
  using attach_creates [of no_objects 7 512] by (auto simp: no_objects_def)

lemma demo_named: "named (demo 2) 7 (demo_st m)"
  using demo_inv [of 2 m] by (simp add: named_def) (simp add: demo_def)

lemma demo_sized: "sized (demo 2) (demo_st m) 5"
  by (simp add: sized_def demo_def demo_seg_def)

text \<open>Attaching a second time under the same key, with a size not above the first one, gives a
  handle on the same elements: capacity, contents and lock state are those of the first handle, whose
  own view does not change either.\<close>
theorem attach_shares:
  assumes "named w key st" and "sized w st m" and "0 \<le> n" and "n \<le> m"
  shows "\<exists>st2 w2. attach_stack w key n = (Some st2, w2) \<and> named w2 key st2 \<and> named w2 key st \<and>
    elems w2 st2 = elems w st \<and> elems w2 st = elems w st \<and>
    get_size w2 st2 = get_size w st \<and> get_count w2 st2 = get_count w st"
proof -
  from assms(1) obtain cap cnt sg where a: "0 \<le> cnt \<and> cnt \<le> cap \<and> cap \<le> SEMVMX \<and> 8 * cap \<le> mapped (seg_size sg)" "0 < id_key st"
    "shm_key w key = Some (id_key st)" "sh_stack st = Some (id_key st)" "sem_key w key = Some (sem st)"
    "shm_seg w (id_key st) = Some sg" "sem_set w (sem st) = Some [cap, cnt, 1]"
    by (rule namedE)
  have g: "\<not> (n < 0 \<or> seg_size sg < n)" using assms(2-4) a(6) by (auto simp: sized_def)
  show ?thesis
    using a g
    by (simp add: attach_stack_def shmget_def semget_def semctl_setval_def shmat_def numeral_3_eq_3
        SEMVMX_def named_def stack_inv_def stack_at_def elems_def get_size_def get_count_def
        semctl_getval_def)
qed

theorem attach_shares_witness:
  "\<exists>st2 w2. attach_stack (demo 2) 7 3 = (Some st2, w2) \<and> elems w2 st2 = [100, 101] \<and>
    get_size w2 st2 = 5"
  using attach_shares [of "demo 2" 7 "demo_st (-1)" 5 3] demo_named demo_sized
  by (auto simp: demo_reads numeral_2_eq_2)

text \<open>C16: attaching under a key in use with a size above the first one fails, and yet it resets the
  semaphores of the existing stack: every process that uses it finds it empty, with the larger
  capacity.\<close>
theorem failed_attach_empties:
  assumes "named w key st" and "sized w st m" and "m < n" and "0 \<le> n" and "n \<le> SEMVMX"
  shows "\<exists>w2. attach_stack w key n = (None, w2) \<and> elems w2 st = [] \<and> get_count w2 st = 0 \<and>
    get_size w2 st = n"
proof -
  from assms(1) obtain cap cnt sg where a: "0 \<le> cnt \<and> cnt \<le> cap \<and> cap \<le> SEMVMX \<and> 8 * cap \<le> mapped (seg_size sg)" "0 < id_key st"
    "shm_key w key = Some (id_key st)" "sh_stack st = Some (id_key st)" "sem_key w key = Some (sem st)"
    "shm_seg w (id_key st) = Some sg" "sem_set w (sem st) = Some [cap, cnt, 1]"
    by (rule namedE)
  have g: "seg_size sg < n" using assms(2,3) a(6) by (auto simp: sized_def)
  then show ?thesis
    using a assms(4,5)
    by (simp add: attach_stack_def shmget_def semget_def semctl_setval_def shmat_def numeral_3_eq_3
        elems_def get_size_def get_count_def semctl_getval_def SEMVMX_def split: option.split)
qed

theorem failed_attach_empties_witness:
  "elems (demo 2) (demo_st (-1)) = [100, 101] \<and>
   (\<exists>w2. attach_stack (demo 2) 7 6 = (None, w2) \<and> elems w2 (demo_st (-1)) = [])"
  using failed_attach_empties [of "demo 2" 7 "demo_st (-1)" 5 6] demo_named demo_sized
  by (auto simp: demo_reads numeral_2_eq_2 SEMVMX_def)

text \<open>C17: the segment is sized in bytes but filled with 8-byte pointers: a stack attached fresh
  with a capacity between 513 and 32767 runs out of its segment below its capacity, and the push
  that would store element number \<open>mapped n div 8\<close> faults although the stack is not full.\<close>
theorem large_stack_faults:
  assumes "shm_key w key = None" and "sem_key w key = None" and "0 < next_id w"
    and "513 \<le> n" and "n \<le> SEMVMX"
  shows "\<exists>st w'. attach_stack w key n = (Some st, w') \<and> get_size w' st = n \<and> sized w' st n \<and>
    mapped n div 8 < n \<and>
    (\<forall>w'' es v. sized w'' st n \<and> sem_set w'' (sem st) = Some [n, mapped n div 8, 1] \<longrightarrow>
       push es w'' st v = Inl Segv)"
proof -
  let ?k = "mapped n div 8"
  have m: "8 * ?k = mapped n" using mapped_dvd by simp
  have k: "?k < n"
  proof (cases "n \<le> 4096")
    case True
    then show ?thesis using mapped_one_page [of n] assms(4) by simp
  next
    case False
    then show ?thesis using mapped_bounds [of n] m by linarith
  qed
  have "push es w'' st v = Inl Segv"
    if z: "sized w'' st n" "sem_set w'' (sem st) = Some [n, ?k, 1]" "sh_stack st = Some (id_key st)"
    for w'' st es v
    using z k m by (auto simp: push_def push_locked_def get_size_def get_count_def semctl_getval_def
        semop_wait_ok semop_def SEMVMX_def write_slot_def sized_def in_seg_def)
  then show ?thesis
    using assms k
    by (simp add: attach_stack_def shmget_def semget_def semctl_setval_def shmat_def numeral_3_eq_3
        SEMVMX_def sized_def get_size_def semctl_getval_def)
qed

theorem large_stack_faults_witness:
  "\<exists>st w'. attach_stack no_objects 7 8192 = (Some st, w') \<and> get_size w' st = 8192 \<and>
    (\<forall>w''. sized w'' st 8192 \<and> sem_set w'' (sem st) = Some [8192, 1024, 1] \<longrightarrow>
      push [] w'' st 9 = Inl Segv)"
  using large_stack_faults [of no_objects 7 8192]
  by (auto simp: no_objects_def SEMVMX_def mapped_def page_size_def)

text \<open>Once a process has destroyed the stack, the others' calls see a count of -1: a push
  without waiting is refused, but a pop goes on and reads the pointer in front of the segment.\<close>
theorem pop_after_destruct:
  assumes "mark_destruct w st = (r, w')" and "sem st2 = sem st"
  shows "get_count w' st2 = -1 \<and> pop es w' st2 = Inl Segv \<and>
    (wait st2 = -1 \<longrightarrow> push es w' st2 v = Inr (-1, w'))"
proof -
  have g: "sem_set w' (sem st2) = None"
    using assms by (auto simp: mark_destruct_def semctl_rmid_def Let_def split: prod.splits)
  have "read_slot u p (-2) = Inl Segv" for u p
    by (simp add: read_slot_def in_seg_def split: option.split)
  then show ?thesis
    using g by (simp add: pop_def push_def pop_locked_def get_count_def get_size_def getval_gone
        semop_wait_ok semop_gone await_def)
qed

theorem pop_after_destruct_witness:
  "\<exists>w'. mark_destruct (demo 2) (demo_st (-1)) = (0, w') \<and> pop [] w' (demo_st (-1)) = Inl Segv"
proof -
  obtain r w' where m: "mark_destruct (demo 2) (demo_st (-1)) = (r, w')" by fastforce
  have "r = 0"
    using m by (auto simp: mark_destruct_def demo_def demo_seg_def shmdt_def shmctl_rmid_def Let_def)
  with m pop_after_destruct [OF m, of "demo_st (-1)" "[]" 9] show ?thesis by simp
qed

end
