(* ===== verification/StackConc.thy ===== *)
theory StackConc
  imports StackProps
begin

section \<open>Processes sharing the stack\<close>

text \<open>
  \<open>push\<close> and \<open>pop\<close> are sequences of system calls, and other processes run between any two
  of them. \<open>pc\<close> is where a process stands, with the local variables the code has live
  there; \<open>cstep\<close> is one system call of one process on the shared kernel objects, in the
  order of \<open>stack.c\<close>, for handles that do not wait (\<open>wait == -1\<close>). A process blocked in
  \<open>semop\<close> has no step.
\<close>

datatype pc =
    Ready
  | Push_size voidp
  | Push_count voidp int
  | Push_lock voidp int
  | Push_store voidp int
  | Push_incr
  | Push_unlock
  | Pop_count
  | Pop_lock int
  | Pop_load int
  | Pop_decr voidp
  | Pop_unlock voidp
  | Returned int "voidp option"

record psys =
  kern :: world
  pcs :: "nat \<Rightarrow> pc"

definition goto :: "psys \<Rightarrow> nat \<Rightarrow> world \<Rightarrow> pc \<Rightarrow> psys" where
  "goto s i w p = s\<lparr>kern := w, pcs := (pcs s)(i := p)\<rparr>"

inductive cstep :: "stack_t \<Rightarrow> psys \<Rightarrow> psys \<Rightarrow> bool" for st where
  call_push: "pcs s i = Ready \<Longrightarrow> cstep st s (goto s i (kern s) (Push_size v))"
| push_size: "pcs s i = Push_size v \<Longrightarrow>
    cstep st s (goto s i (kern s) (Push_count v (get_size (kern s) st)))"
| push_full: "pcs s i = Push_count v sz \<Longrightarrow> get_count (kern s) st = sz \<Longrightarrow>
    cstep st s (goto s i (kern s) (Returned (-1) None))"
| push_room: "pcs s i = Push_count v sz \<Longrightarrow> get_count (kern s) st \<noteq> sz \<Longrightarrow>
    cstep st s (goto s i (kern s) (Push_lock v (get_count (kern s) st)))"
| push_lock: "pcs s i = Push_lock v c \<Longrightarrow> semop (kern s) (sem st) 2 (-1) = Inr (r, w') \<Longrightarrow>
    cstep st s (goto s i w' (Push_store v c))"
| push_store: "pcs s i = Push_store v c \<Longrightarrow> write_slot (kern s) (sh_stack st) c v = Inr w' \<Longrightarrow>
    cstep st s (goto s i w' Push_incr)"
| push_incr: "pcs s i = Push_incr \<Longrightarrow> semop (kern s) (sem st) 1 1 = Inr (r, w') \<Longrightarrow>
    cstep st s (goto s i w' Push_unlock)"
| push_unlock: "pcs s i = Push_unlock \<Longrightarrow> semop (kern s) (sem st) 2 1 = Inr (r, w') \<Longrightarrow>
    cstep st s (goto s i w' (Returned 0 None))"
| call_pop: "pcs s i = Ready \<Longrightarrow> cstep st s (goto s i (kern s) Pop_count)"
| pop_empty: "pcs s i = Pop_count \<Longrightarrow> get_count (kern s) st = 0 \<Longrightarrow>
    cstep st s (goto s i (kern s) (Returned (-1) None))"
| pop_some: "pcs s i = Pop_count \<Longrightarrow> get_count (kern s) st \<noteq> 0 \<Longrightarrow>
    cstep st s (goto s i (kern s) (Pop_lock (get_count (kern s) st)))"
| pop_lock: "pcs s i = Pop_lock c \<Longrightarrow> semop (kern s) (sem st) 2 (-1) = Inr (r, w') \<Longrightarrow>
    cstep st s (goto s i w' (Pop_load c))"
| pop_load: "pcs s i = Pop_load c \<Longrightarrow> read_slot (kern s) (sh_stack st) (c - 1) = Inr v \<Longrightarrow>
    cstep st s (goto s i (kern s) (Pop_decr v))"
| pop_decr: "pcs s i = Pop_decr v \<Longrightarrow> semop (kern s) (sem st) 1 (-1) = Inr (r, w') \<Longrightarrow>
    cstep st s (goto s i w' (Pop_unlock v))"
| pop_unlock: "pcs s i = Pop_unlock v \<Longrightarrow> semop (kern s) (sem st) 2 1 = Inr (r, w') \<Longrightarrow>
    cstep st s (goto s i w' (Returned 0 (Some v)))"
| return: "pcs s i = Returned r x \<Longrightarrow> cstep st s (goto s i (kern s) Ready)"

definition all_ready :: "world \<Rightarrow> psys" where
  "all_ready w = \<lparr>kern = w, pcs = (\<lambda>_. Ready)\<rparr>"

lemma goto_simps [simp]:
  "kern (goto s i w p) = w" "pcs (goto s i w p) j = (if j = i then p else pcs s j)"
  "goto (goto s i w p) i w' p' = goto s i w' p'"
  by (simp_all add: goto_def)

subsection \<open>Mutual exclusion\<close>

text \<open>
  A process is in the critical section from the lock to the unlock. The lock and the
  processes agree: it is free and nobody is inside, or taken by exactly one.
\<close>

fun critical :: "pc \<Rightarrow> bool" where
  "critical (Push_store v c) = True"
| "critical Push_incr = True"
| "critical Push_unlock = True"
| "critical (Pop_load c) = True"
| "critical (Pop_decr v) = True"
| "critical (Pop_unlock v) = True"
| "critical _ = False"

definition lock_inv :: "stack_t \<Rightarrow> psys \<Rightarrow> bool" where
  "lock_inv st s \<longleftrightarrow> (\<exists>cap cnt m. sem_set (kern s) (sem st) = Some [cap, cnt, m] \<and>
     (m = 1 \<and> (\<forall>i. \<not> critical (pcs s i)) \<or>
      m = 0 \<and> (\<exists>i. critical (pcs s i) \<and> (\<forall>j. critical (pcs s j) \<longrightarrow> j = i))))"

lemma lock_inv_cases [consumes 1, case_names free taken]:
  assumes "lock_inv st s"
  obtains cap cnt where "sem_set (kern s) (sem st) = Some [cap, cnt, 1]" "\<And>i. \<not> critical (pcs s i)"
  | cap cnt i where "sem_set (kern s) (sem st) = Some [cap, cnt, 0]" "critical (pcs s i)"
      "\<And>j. j \<noteq> i \<Longrightarrow> \<not> critical (pcs s j)"
  using assms unfolding lock_inv_def by blast

lemma lock_inv_free:
  "sem_set w (sem st) = Some [cap, cnt, 1] \<Longrightarrow> (\<And>j. j \<noteq> i \<Longrightarrow> \<not> critical (pcs s j)) \<Longrightarrow>
     \<not> critical p \<Longrightarrow> lock_inv st (goto s i w p)"
  by (auto simp: lock_inv_def)

lemma lock_inv_taken:
  "sem_set w (sem st) = Some [cap, cnt, 0] \<Longrightarrow> (\<And>j. j \<noteq> i \<Longrightarrow> \<not> critical (pcs s j)) \<Longrightarrow>
     critical p \<Longrightarrow> lock_inv st (goto s i w p)"
  by (auto simp: lock_inv_def)

text \<open>The kinds of step: none on the lock outside, taking it, inside, giving it back.\<close>

lemma lock_inv_outside:
  assumes "lock_inv st s" "\<not> critical (pcs s i)" "\<not> critical p"
  shows "lock_inv st (goto s i (kern s) p)"
  using assms(1)
proof (cases rule: lock_inv_cases)
  case (free cap cnt)
  then show ?thesis using assms(3) by (intro lock_inv_free) auto
next
  case (taken cap cnt k)
  then have "k \<noteq> i" using assms(2) by blast
  then have "critical (pcs (goto s i (kern s) p) k)" using taken(2) by simp
  moreover have "j = k" if "critical (pcs (goto s i (kern s) p) j)" for j
    using that taken(3) [of j] assms(3) by (auto split: if_splits)
  ultimately show ?thesis
    using taken(1) unfolding lock_inv_def goto_simps by blast
qed

lemma lock_inv_take:
  assumes "lock_inv st s" "semop (kern s) (sem st) 2 (-1) = Inr (r, w')" "critical p"
  shows "lock_inv st (goto s i w' p)"
  using assms(1)
proof (cases rule: lock_inv_cases)
  case (free cap cnt)
  then have "sem_set w' (sem st) = Some [cap, cnt, 0]"
    using assms(2) by (auto simp: semop_def SEMVMX_def)
  then show ?thesis using free(2) assms(3) by (rule lock_inv_taken)
next
  case (taken cap cnt k)
  then show ?thesis using assms(2) by (simp add: semop_def)
qed

lemma lock_inv_inside:
  assumes "lock_inv st s" "critical (pcs s i)" "critical p"
    and "\<And>cap cnt. sem_set (kern s) (sem st) = Some [cap, cnt, 0] \<Longrightarrow>
      \<exists>cnt'. sem_set w' (sem st) = Some [cap, cnt', 0]"
  shows "lock_inv st (goto s i w' p)"
  using assms(1)
proof (cases rule: lock_inv_cases)
  case (free cap cnt)
  with assms(2) show ?thesis by simp
next
  case (taken cap cnt k)
  then have "k = i" using assms(2) by metis
  obtain cnt' where "sem_set w' (sem st) = Some [cap, cnt', 0]"
    using assms(4) taken(1) by blast
  then show ?thesis using taken(3) assms(3) \<open>k = i\<close> by (intro lock_inv_taken) auto
qed

lemma lock_inv_give:
  assumes "lock_inv st s" "critical (pcs s i)" "semop (kern s) (sem st) 2 1 = Inr (r, w')" "\<not> critical p"
  shows "lock_inv st (goto s i w' p)"
  using assms(1)
proof (cases rule: lock_inv_cases)
  case (free cap cnt)
  with assms(2) show ?thesis by simp
next
  case (taken cap cnt k)
  then have "k = i" using assms(2) by metis
  moreover have "sem_set w' (sem st) = Some [cap, cnt, 1]"
    using assms(3) taken(1) by (auto simp: semop_def SEMVMX_def)
  ultimately show ?thesis using taken(3) assms(4) by (intro lock_inv_free) auto
qed

lemma semop_count_keeps:
  "semop w i (Suc 0) d = Inr (r, w') \<Longrightarrow> sem_set w i = Some [cap, cnt, m] \<Longrightarrow>
     \<exists>cnt'. sem_set w' i = Some [cap, cnt', m]"
  by (auto simp: semop_def split: if_splits)

lemma write_slot_sem: "write_slot w p c v = Inr w' \<Longrightarrow> sem_set w' = sem_set w"
  by (auto simp: write_slot_def split: option.splits if_splits)

lemma cstep_lock_inv: "cstep st s t \<Longrightarrow> lock_inv st s \<Longrightarrow> lock_inv st t"
proof (induction rule: cstep.induct)
  case (push_store s i v c w')
  then show ?case by (intro lock_inv_inside) (auto simp: write_slot_sem)
next
  case (pop_load s i c v)
  then show ?case by (intro lock_inv_inside) auto
next
  case (push_incr s i r w')
  then show ?case by (intro lock_inv_inside) (auto dest: semop_count_keeps)
next
  case (pop_decr s i v r w')
  then show ?case by (intro lock_inv_inside) (auto dest: semop_count_keeps)
qed (auto intro: lock_inv_outside lock_inv_take lock_inv_give)

lemma run_lock_inv: "(cstep st)\<^sup>*\<^sup>* s t \<Longrightarrow> lock_inv st s \<Longrightarrow> lock_inv st t"
  by (induction rule: rtranclp_induct) (auto intro: cstep_lock_inv)

lemma all_ready_lock_inv: "stack_inv w st \<Longrightarrow> lock_inv st (all_ready w)"
  by (auto simp: lock_inv_def all_ready_def stack_at_def elim!: stack_invE)

text \<open>C11: whatever the interleaving of pushes and pops of any number of processes, at most one
  process is between the lock and the unlock of semaphore 2.\<close>
theorem mutual_exclusion:
  assumes "stack_inv w st" and "(cstep st)\<^sup>*\<^sup>* (all_ready w) s"
    and "critical (pcs s i)" and "critical (pcs s j)"
  shows "i = j"
  using run_lock_inv [OF assms(2) all_ready_lock_inv [OF assms(1)]]
proof (cases rule: lock_inv_cases)
  case (free cap cnt)
  then show ?thesis using assms(3) by simp
next
  case (taken cap cnt k)
  then show ?thesis using assms(3,4) by metis
qed

subsection \<open>The steps of one call\<close>

text \<open>
  \<open>own_step st i\<close> is a step of process \<open>i\<close> inside its call of \<open>push\<close> or \<open>pop\<close>: the calls
  themselves and the returns to the program are other steps. \<open>steps_left\<close> bounds how many the
  call still makes, and \<open>rest_of\<close> is what its remaining statements do to the kernel objects when
  nobody else runs: a failure, or the return code, the pointer popped and the objects left.
\<close>

fun in_call :: "pc \<Rightarrow> bool" where
  "in_call Ready = False"
| "in_call (Returned r x) = False"
| "in_call _ = True"

definition own_step :: "stack_t \<Rightarrow> nat \<Rightarrow> psys \<Rightarrow> psys \<Rightarrow> bool" where
  "own_step st i s t \<longleftrightarrow> cstep st s t \<and> in_call (pcs s i) \<and> pcs t i \<noteq> pcs s i"

fun steps_left :: "pc \<Rightarrow> nat" where
  "steps_left (Push_size v) = 6"
| "steps_left (Push_count v sz) = 5"
| "steps_left (Push_lock v c) = 4"
| "steps_left (Push_store v c) = 3"
| "steps_left Push_incr = 2"
| "steps_left Push_unlock = 1"
| "steps_left Pop_count = 5"
| "steps_left (Pop_lock c) = 4"
| "steps_left (Pop_load c) = 3"
| "steps_left (Pop_decr v) = 2"
| "steps_left (Pop_unlock v) = 1"
| "steps_left _ = 0"

function rest_of :: "stack_t \<Rightarrow> world \<Rightarrow> pc \<Rightarrow> (int \<times> voidp option \<times> world) res" where
  "rest_of st w (Push_size v) = rest_of st w (Push_count v (get_size w st))"
| "rest_of st w (Push_count v sz) =
     (if get_count w st = sz then Inr (-1, None, w) else rest_of st w (Push_lock v (get_count w st)))"
| "rest_of st w (Push_lock v c) = rbind (semop w (sem st) 2 (-1)) (\<lambda>(r, w). rest_of st w (Push_store v c))"
| "rest_of st w (Push_store v c) = rbind (write_slot w (sh_stack st) c v) (\<lambda>w. rest_of st w Push_incr)"
| "rest_of st w Push_incr = rbind (semop w (sem st) 1 1) (\<lambda>(r, w). rest_of st w Push_unlock)"
| "rest_of st w Push_unlock = rbind (semop w (sem st) 2 1) (\<lambda>(r, w). Inr (0, None, w))"
| "rest_of st w Pop_count =
     (if get_count w st = 0 then Inr (-1, None, w) else rest_of st w (Pop_lock (get_count w st)))"
| "rest_of st w (Pop_lock c) = rbind (semop w (sem st) 2 (-1)) (\<lambda>(r, w). rest_of st w (Pop_load c))"
| "rest_of st w (Pop_load c) = rbind (read_slot w (sh_stack st) (c - 1)) (\<lambda>v. rest_of st w (Pop_decr v))"
| "rest_of st w (Pop_decr v) = rbind (semop w (sem st) 1 (-1)) (\<lambda>(r, w). rest_of st w (Pop_unlock v))"
| "rest_of st w (Pop_unlock v) = rbind (semop w (sem st) 2 1) (\<lambda>(r, w). Inr (0, Some v, w))"
| "rest_of st w (Returned r x) = Inr (r, x, w)"
| "rest_of st w Ready = Inl Blocked"
  by pat_completeness auto

termination
  by (relation "measure (\<lambda>(st, w, p). steps_left p)") auto

lemma rest_of_push:
  assumes "wait st = -1"
  shows "rest_of st w (Push_size v) =
    (case push [] w st v of Inl e \<Rightarrow> Inl e | Inr (r, w') \<Rightarrow> Inr (r, None, w'))"
  using assms
  by (auto simp: push_def await_def push_locked_def rbind_def split: sum.split)

lemma rest_of_pop:
  assumes "wait st = -1"
  shows "rest_of st w Pop_count = pop [] w st"
  using assms
  by (auto simp: pop_def await_def pop_locked_def rbind_def split: sum.split)

text \<open>A step keeps what the call comes to, brings it nearer and leaves the other processes alone.\<close>

lemma own_step_keeps:
  assumes "own_step st i s t"
  shows "rest_of st (kern t) (pcs t i) = rest_of st (kern s) (pcs s i)"
    and "steps_left (pcs t i) < steps_left (pcs s i)"
    and "t = goto s i (kern t) (pcs t i)"
    and "pcs t i \<noteq> Ready"
proof -
  from assms have c: "cstep st s t" "in_call (pcs s i)" "pcs t i \<noteq> pcs s i"
    by (simp_all add: own_step_def)
  then have "rest_of st (kern t) (pcs t i) = rest_of st (kern s) (pcs s i) \<and>
    steps_left (pcs t i) < steps_left (pcs s i) \<and> t = goto s i (kern t) (pcs t i) \<and> pcs t i \<noteq> Ready"
    by (cases rule: cstep.cases) (auto split: if_splits)
  then show "rest_of st (kern t) (pcs t i) = rest_of st (kern s) (pcs s i)"
    "steps_left (pcs t i) < steps_left (pcs s i)" "t = goto s i (kern t) (pcs t i)" "pcs t i \<noteq> Ready"
    by simp_all
qed

lemma own_stepI: "cstep st s (goto s i w p) \<Longrightarrow> in_call (pcs s i) \<Longrightarrow> p \<noteq> pcs s i \<Longrightarrow> own_step st i s (goto s i w p)"
  by (simp add: own_step_def)

text \<open>A call stops only where a system call blocks or faults.\<close>

lemma own_step_progress:
  assumes "in_call (pcs s i)" and "rest_of st (kern s) (pcs s i) = Inr y"
  shows "\<exists>t. own_step st i s t"
proof (cases "pcs s i")
  case (Push_size v)
  then show ?thesis using own_stepI [OF cstep.push_size] by fastforce
next
  case (Push_count v sz)
  then show ?thesis
    using own_stepI [OF cstep.push_full, of s i v sz st] own_stepI [OF cstep.push_room, of s i v sz st]
    by (cases "get_count (kern s) st = sz") auto
next
  case (Push_lock v c)
  then show ?thesis using own_stepI [OF cstep.push_lock, of s i v c st] assms by (fastforce simp: rbind_eq_Inr_iff)
next
  case (Push_store v c)
  then show ?thesis using own_stepI [OF cstep.push_store, of s i v c st] assms by (fastforce simp: rbind_eq_Inr_iff)
next
  case Push_incr
  then show ?thesis using own_stepI [OF cstep.push_incr, of s i st] assms by (fastforce simp: rbind_eq_Inr_iff)
next
  case Push_unlock
  then show ?thesis using own_stepI [OF cstep.push_unlock, of s i st] assms by (fastforce simp: rbind_eq_Inr_iff)
next
  case Pop_count
  then show ?thesis
    using own_stepI [OF cstep.pop_empty, of s i st] own_stepI [OF cstep.pop_some, of s i st]
    by (cases "get_count (kern s) st = 0") auto
next
  case (Pop_lock c)
  then show ?thesis using own_stepI [OF cstep.pop_lock, of s i c st] assms by (fastforce simp: rbind_eq_Inr_iff)
next
  case (Pop_load c)
  then show ?thesis using own_stepI [OF cstep.pop_load, of s i c st] assms by (fastforce simp: rbind_eq_Inr_iff)
next
  case (Pop_decr v)
  then show ?thesis using own_stepI [OF cstep.pop_decr, of s i v st] assms by (fastforce simp: rbind_eq_Inr_iff)
next
  case (Pop_unlock v)
  then show ?thesis using own_stepI [OF cstep.pop_unlock, of s i v st] assms by (fastforce simp: rbind_eq_Inr_iff)
qed (use assms in auto)

lemma own_run_keeps:
  assumes "(own_step st i ^^ n) s t" and "pcs s i \<noteq> Ready"
  shows "rest_of st (kern t) (pcs t i) = rest_of st (kern s) (pcs s i) \<and>
    n + steps_left (pcs t i) \<le> steps_left (pcs s i) \<and> t = goto s i (kern t) (pcs t i) \<and> pcs t i \<noteq> Ready"
  using assms
proof (induction n arbitrary: t)
  case 0
  then show ?case by (simp add: goto_def)
next
  case (Suc n)
  then obtain u where u: "(own_step st i ^^ n) s u" "own_step st i u t" by auto
  have "t = goto u i (kern t) (pcs t i)" by (rule own_step_keeps(3) [OF u(2)])
  also have "\<dots> = goto s i (kern t) (pcs t i)" using Suc.IH [OF u(1) Suc.prems(2)] goto_simps(3) by metis
  finally show ?case using Suc.IH [OF u(1) Suc.prems(2)] own_step_keeps [OF u(2)] by simp
qed

text \<open>The two ways a run of one process's steps can stop.\<close>

lemma own_run_stops:
  assumes "(own_step st i ^^ n) s t" and "in_call (pcs s i)" and "\<And>u. \<not> own_step st i t u"
  shows "case rest_of st (kern s) (pcs s i) of
      Inr (r, x, w') \<Rightarrow> t = goto s i w' (Returned r x)
    | Inl e \<Rightarrow> in_call (pcs t i)"
proof -
  have s: "pcs s i \<noteq> Ready" using assms(2) by auto
  note k = own_run_keeps [OF assms(1) s]
  show ?thesis
  proof (cases "in_call (pcs t i)")
    case True
    then obtain e where "rest_of st (kern t) (pcs t i) = Inl e"
      using own_step_progress [of t i st] assms(3) by (cases "rest_of st (kern t) (pcs t i)") blast+
    then have "rest_of st (kern s) (pcs s i) = Inl e" using k by simp
    then show ?thesis using True by simp
  next
    case False
    then obtain r x where t: "pcs t i = Returned r x" using k by (cases "pcs t i") auto
    then have "rest_of st (kern s) (pcs s i) = Inr (r, x, kern t)" using k by simp
    moreover have "t = goto s i (kern t) (Returned r x)" using k t by metis
    ultimately show ?thesis by simp
  qed
qed

lemma own_run_exists:
  "rest_of st (kern s) (pcs s i) = Inr (r, x, w') \<Longrightarrow> pcs s i \<noteq> Ready \<Longrightarrow>
     (own_step st i)\<^sup>*\<^sup>* s (goto s i w' (Returned r x))"
proof (induction "steps_left (pcs s i)" arbitrary: s rule: less_induct)
  case less
  show ?case
  proof (cases "in_call (pcs s i)")
    case True
    then obtain t where t: "own_step st i s t" using own_step_progress less.prems(1) by blast
    note k = own_step_keeps [OF t]
    have "(own_step st i)\<^sup>*\<^sup>* t (goto t i w' (Returned r x))"
      using less.hyps [OF k(2)] k(1,4) less.prems(1) by simp
    moreover have "goto t i w' (Returned r x) = goto s i w' (Returned r x)"
      using k(3) goto_simps(3) by metis
    ultimately show ?thesis using t by (metis converse_rtranclp_into_rtranclp)
  next
    case False
    then have "pcs s i = Returned r x" "kern s = w'" using less.prems by (cases "pcs s i"; auto)+
    then show ?thesis by (cases s) (auto simp: goto_def fun_upd_idem)
  qed
qed

lemma own_steps_csteps: "(own_step st i)\<^sup>*\<^sup>* s t \<Longrightarrow> (cstep st)\<^sup>*\<^sup>* s t"
  by (induction rule: rtranclp_induct) (auto simp: own_step_def intro: rtranclp.rtrancl_into_rtrancl)

subsection \<open>A call nobody interrupts\<close>

text \<open>What the functions do on a well-formed stack that does not wait.\<close>

lemma push_inv_cases:
  assumes "stack_inv w st" and "wait st = -1"
  shows "if get_count w st < get_size w st
    then \<exists>w'. push [] w st v = Inr (0, w') \<and> stack_inv w' st \<and> elems w' st = elems w st @ [v]
    else push [] w st v = Inr (-1, w)"
proof -
  from assms(1) obtain n cap cnt sg where a: "stack_at w st n cap cnt sg" "8 * cap \<le> mapped (seg_size sg)" ..
  show ?thesis
  proof (cases "cnt < cap")
    case True
    then have m: "8 * (cnt + 1) \<le> mapped (seg_size sg)" using a(2) by simp
    show ?thesis
      using push_run [OF a(1) True m] elems_pushed [OF a(1) True m] a
        stack_at_inv [OF pushed_at [OF a(1) True m]] True by (simp add: stack_at_reads)
  next
    case False
    then have "cnt = cap" using stack_at_cnt [OF a(1)] by simp
    then show ?thesis using push_full_run [OF a(1) _ assms(2)] a(1) by (simp add: stack_at_reads)
  qed
qed

lemma pop_inv_cases:
  assumes "stack_inv w st" and "wait st = -1"
  shows "if elems w st \<noteq> []
    then \<exists>w'. pop [] w st = Inr (0, Some (last (elems w st)), w') \<and> stack_inv w' st \<and>
      elems w' st = butlast (elems w st)
    else pop [] w st = Inr (-1, None, w)"
proof -
  from assms(1) obtain n cap cnt sg where a: "stack_at w st n cap cnt sg" "8 * cap \<le> mapped (seg_size sg)" ..
  show ?thesis
  proof (cases "cnt = 0")
    case True
    then show ?thesis using pop_empty_run [of w st n cap sg "[]"] a(1) assms(2) by (simp add: stack_at_reads)
  next
    case False
    then have pos: "0 < cnt" using stack_at_cnt [OF a(1)] by simp
    then show ?thesis
      using pop_run [OF a(1) pos] elems_popped [OF a(1) pos] stack_at_inv [OF popped_at [OF a(1) pos] a(2)]
        a(1) by (simp add: stack_at_reads)
  qed
qed

lemma push_rest_room:
  assumes "stack_at w st n cap cnt sg" "cnt < cap" "8 * (cnt + 1) \<le> mapped (seg_size sg)"
  shows "rest_of st w (Push_size v) = Inr (0, None, pushed w st n cap cnt sg v)"
  using assms stack_at_cnt [OF assms(1)]
  by (simp add: stack_at_reads)
    (simp add: stack_at_def semop_def SEMVMX_def write_slot_def in_seg_def pushed_def)

text \<open>C10: a call of \<open>push\<close> or \<open>pop\<close> in which no other process runs is atomic, whatever the state
  the kernel objects are in: every run of its steps ends, after at most six (five) of them, and where
  it ends it has returned with exactly the return code, the pointer and the kernel objects that the
  function computes, the other processes untouched, or stands in the call if the function fails. On
  a well-formed stack it has returned, and the elements are those of a bounded stack: the pointer
  appended to a stack with room, the last one taken off a stack with elements, else -1 and no change.\<close>
theorem uninterrupted_calls_are_atomic:
  assumes "wait st = -1" and "(own_step st i ^^ n) s t"
  shows "(pcs s i = Push_size v \<longrightarrow> n \<le> 6 \<and> ((\<forall>u. \<not> own_step st i t u) \<longrightarrow>
      (case push [] (kern s) st v of
         Inr (r, w') \<Rightarrow> t = goto s i w' (Returned r None)
       | Inl e \<Rightarrow> in_call (pcs t i)) \<and>
      (stack_inv (kern s) st \<longrightarrow> stack_inv (kern t) st \<and>
        (if get_count (kern s) st < get_size (kern s) st
         then pcs t i = Returned 0 None \<and> elems (kern t) st = elems (kern s) st @ [v]
         else pcs t i = Returned (-1) None \<and> kern t = kern s)))) \<and>
    (pcs s i = Pop_count \<longrightarrow> n \<le> 5 \<and> ((\<forall>u. \<not> own_step st i t u) \<longrightarrow>
      (case pop [] (kern s) st of
         Inr (r, x, w') \<Rightarrow> t = goto s i w' (Returned r x)
       | Inl e \<Rightarrow> in_call (pcs t i)) \<and>
      (stack_inv (kern s) st \<longrightarrow> stack_inv (kern t) st \<and>
        (if elems (kern s) st \<noteq> []
         then pcs t i = Returned 0 (Some (last (elems (kern s) st))) \<and>
           elems (kern t) st = butlast (elems (kern s) st)
         else pcs t i = Returned (-1) None \<and> kern t = kern s))))"
proof -
  have push_end: "stack_inv (kern t) st \<and>
      (if get_count (kern s) st < get_size (kern s) st
       then pcs t i = Returned 0 None \<and> elems (kern t) st = elems (kern s) st @ [v]
       else pcs t i = Returned (-1) None \<and> kern t = kern s)"
    if e: "case push [] (kern s) st v of Inr (r, w') \<Rightarrow> t = goto s i w' (Returned r None)
         | Inl e \<Rightarrow> in_call (pcs t i)" and inv: "stack_inv (kern s) st"
    using push_inv_cases [OF inv assms(1), of v] e inv by (auto split: if_splits)
  have pop_end: "stack_inv (kern t) st \<and>
      (if elems (kern s) st \<noteq> []
       then pcs t i = Returned 0 (Some (last (elems (kern s) st))) \<and>
         elems (kern t) st = butlast (elems (kern s) st)
       else pcs t i = Returned (-1) None \<and> kern t = kern s)"
    if e: "case pop [] (kern s) st of Inr (r, x, w') \<Rightarrow> t = goto s i w' (Returned r x)
         | Inl e \<Rightarrow> in_call (pcs t i)" and inv: "stack_inv (kern s) st"
    using pop_inv_cases [OF inv assms(1)] e inv by (auto split: if_splits)
  have push: "case push [] (kern s) st v of Inr (r, w') \<Rightarrow> t = goto s i w' (Returned r None)
       | Inl e \<Rightarrow> in_call (pcs t i)" if "pcs s i = Push_size v" "\<forall>u. \<not> own_step st i t u"
    using own_run_stops [OF assms(2)] that 
    by (auto simp: rest_of_push [OF assms(1)] simp del: rest_of.simps split: sum.splits)
  have pop: "case pop [] (kern s) st of Inr (r, x, w') \<Rightarrow> t = goto s i w' (Returned r x)
       | Inl e \<Rightarrow> in_call (pcs t i)" if "pcs s i = Pop_count" "\<forall>u. \<not> own_step st i t u"
    using own_run_stops [OF assms(2)] that 
    by (auto simp: rest_of_pop [OF assms(1)] simp del: rest_of.simps split: sum.splits)
  have "n \<le> steps_left (pcs s i)" if "pcs s i \<noteq> Ready"
    using own_run_keeps [OF assms(2) that] by simp
  then show ?thesis using push pop push_end pop_end by auto
qed

text \<open>The runs below interleave two processes' calls.\<close>

lemma push_to_lock_own:
  assumes "stack_at (kern s) st n cap cnt sg" "cnt < cap" "pcs s i = Push_size v"
  shows "(own_step st i)\<^sup>*\<^sup>* s (goto s i (kern s) (Push_lock v cnt))"
proof -
  let ?a = "goto s i (kern s) (Push_count v cap)"
  have "own_step st i s ?a"
    using own_stepI [OF cstep.push_size, OF assms(3), of st] assms by (simp add: stack_at_reads)
  moreover have "own_step st i ?a (goto ?a i (kern s) (Push_lock v cnt))"
    using cstep.push_room [of ?a i v cap st] assms by (intro own_stepI) (simp_all add: stack_at_reads)
  ultimately show ?thesis by simp
qed

lemma push_to_lock:
  assumes "stack_at (kern s) st n cap cnt sg" "cnt < cap" "pcs s i = Ready"
  shows "(cstep st)\<^sup>*\<^sup>* s (goto s i (kern s) (Push_lock v cnt))"
proof -
  let ?a = "goto s i (kern s) (Push_size v)"
  have "cstep st s ?a" by (rule cstep.call_push [OF assms(3)])
  moreover have "(cstep st)\<^sup>*\<^sup>* ?a (goto s i (kern s) (Push_lock v cnt))"
    using own_steps_csteps [OF push_to_lock_own [of ?a st n cap cnt sg i v]] assms by simp
  ultimately show ?thesis by (rule converse_rtranclp_into_rtranclp)
qed

subsection \<open>Two pushes at once\<close>

text \<open>
  \<open>push\<close> reads the number of elements before it takes the lock. The runs below interleave
  two pushes after both have read the same number.
\<close>

definition stored_at :: "world \<Rightarrow> stack_t \<Rightarrow> int \<Rightarrow> int \<Rightarrow> int \<Rightarrow> seg \<Rightarrow> int \<Rightarrow> voidp \<Rightarrow> world" where
  "stored_at w st n cap cnt sg c v =
     w\<lparr>shm_seg := (shm_seg w)(n \<mapsto> sg\<lparr>seg_mem := (seg_mem sg)(nat c := v)\<rparr>),
       sem_set := (sem_set w)(sem st \<mapsto> [cap, cnt + 1, 1])\<rparr>"

text \<open>From the lock on, a push stores at the count it read before, whatever the count is now.\<close>

lemma push_from_lock:
  assumes "pcs s i = Push_lock v c" "sem_set (kern s) (sem st) = Some [cap, cnt, 1]"
    and "sh_stack st = Some n" "shm_seg (kern s) n = Some sg" "in_seg sg c"
    and "0 \<le> cnt" "cnt < SEMVMX"
  shows "(own_step st i)\<^sup>*\<^sup>* s (goto s i (stored_at (kern s) st n cap cnt sg c v) (Returned 0 None))"
  using assms
  by (intro own_run_exists)
    (simp_all add: semop_def SEMVMX_def write_slot_def stored_at_def)

text \<open>C18: two pushes that overlap lose an element: from any state with at least one free slot in which
  one process has called \<open>push\<close> with \<open>v1\<close> and another with \<open>v2\<close>, the steps of these two calls alone,
  interleaved in one order, make both return 0 and let the count grow by two, but \<open>v2\<close> overwrites
  \<open>v1\<close> and the slot above keeps its old content; the first call running to its end before the second
  starts, with two free slots, leaves \<open>v1\<close> and \<open>v2\<close> instead. With one free slot left the count of the
  overlapping run ends above the capacity.\<close>
theorem overlapping_pushes_lose_one:
  assumes "stack_at (kern s) st n cap cnt sg" and "cnt < cap" and "cap < SEMVMX"
    and "8 * (cnt + 1) \<le> mapped (seg_size sg)" and "i \<noteq> j"
    and "pcs s i = Push_size v1" and "pcs s j = Push_size v2"
  shows "(\<exists>t. (\<lambda>a b. own_step st i a b \<or> own_step st j a b)\<^sup>*\<^sup>* s t \<and>
      pcs t i = Returned 0 None \<and> pcs t j = Returned 0 None \<and>
      get_count (kern t) st = cnt + 2 \<and> get_size (kern t) st = cap \<and>
      elems (kern t) st = elems (kern s) st @ [v2, seg_mem sg (nat (cnt + 1))]) \<and>
    (cnt + 1 < cap \<longrightarrow> 8 * (cnt + 2) \<le> mapped (seg_size sg) \<longrightarrow>
      (\<exists>u t. (own_step st i)\<^sup>*\<^sup>* s u \<and> (own_step st j)\<^sup>*\<^sup>* u t \<and>
        pcs t i = Returned 0 None \<and> pcs t j = Returned 0 None \<and>
        get_count (kern t) st = cnt + 2 \<and> elems (kern t) st = elems (kern s) st @ [v1, v2]))"
proof (intro conjI impI)
  let ?two = "\<lambda>a b. own_step st i a b \<or> own_step st j a b"
  let ?w = "kern s" let ?w1 = "stored_at ?w st n cap cnt sg cnt v1"
  let ?sg = "sg\<lparr>seg_mem := (seg_mem sg)(nat cnt := v1)\<rparr>"
  let ?w2 = "stored_at ?w1 st n cap (cnt + 1) ?sg cnt v2"
  let ?a = "goto s i ?w (Push_lock v1 cnt)"
  let ?b = "goto ?a j ?w (Push_lock v2 cnt)"
  let ?c = "goto ?b i ?w1 (Returned 0 None)"
  let ?t = "goto ?c j ?w2 (Returned 0 None)"
  note st = assms(1) [unfolded stack_at_def]
  have i: "?two\<^sup>*\<^sup>* x y" if "(own_step st i)\<^sup>*\<^sup>* x y" for x y
    by (rule mono_rtranclp [rule_format, OF _ that]) simp
  have j: "?two\<^sup>*\<^sup>* x y" if "(own_step st j)\<^sup>*\<^sup>* x y" for x y
    by (rule mono_rtranclp [rule_format, OF _ that]) simp
  have g: "in_seg sg cnt" using st assms(4) by (simp add: in_seg_def)
  then have g': "in_seg ?sg cnt" by (simp add: in_seg_def)
  have 1: "?two\<^sup>*\<^sup>* s ?a" by (rule i [OF push_to_lock_own [OF assms(1,2,6)]])
  have 2: "?two\<^sup>*\<^sup>* ?a ?b"
    using push_to_lock_own [of ?a st n cap cnt sg j v2] assms by (intro j) simp
  have 3: "?two\<^sup>*\<^sup>* ?b ?c"
    using push_from_lock [of ?b i v1 cnt st cap cnt n sg] st assms(2,3,5) g by (intro i) simp
  have 4: "?two\<^sup>*\<^sup>* ?c ?t"
    using push_from_lock [of ?c j v2 cnt st cap "cnt + 1" n ?sg] st assms(2,3,5) g'
    by (intro j) (simp add: stored_at_def)
  have run: "?two\<^sup>*\<^sup>* s ?t" using 1 2 3 4 by (meson rtranclp_trans)
  have e: "nat (2 + cnt) = Suc (Suc (nat cnt))" "nat (cnt + 1) = Suc (nat cnt)"
    using st by (simp_all add: nat_add_distrib)
  have "elems ?w2 st = elems ?w st @ [v2, seg_mem sg (nat (cnt + 1))]"
    using st e by (simp add: elems_def get_count_def semctl_getval_def stored_at_def)
  moreover have "get_count ?w2 st = cnt + 2" "get_size ?w2 st = cap"
    using st by (simp_all add: get_count_def get_size_def semctl_getval_def stored_at_def)
  ultimately show "\<exists>t. ?two\<^sup>*\<^sup>* s t \<and> pcs t i = Returned 0 None \<and> pcs t j = Returned 0 None \<and>
      get_count (kern t) st = cnt + 2 \<and> get_size (kern t) st = cap \<and>
      elems (kern t) st = elems (kern s) st @ [v2, seg_mem sg (nat (cnt + 1))]"
    using run assms(5) by (intro exI [of _ ?t]) simp
next
  assume room: "cnt + 1 < cap" "8 * (cnt + 2) \<le> mapped (seg_size sg)"
  let ?sg = "sg\<lparr>seg_mem := (seg_mem sg)(nat cnt := v1)\<rparr>"
  let ?w1 = "pushed (kern s) st n cap cnt sg v1" let ?w2 = "pushed ?w1 st n cap (cnt + 1) ?sg v2"
  let ?u = "goto s i ?w1 (Returned 0 None)" let ?t = "goto ?u j ?w2 (Returned 0 None)"
  have at1: "stack_at ?w1 st n cap (cnt + 1) ?sg" by (rule pushed_at [OF assms(1,2,4)])
  have "8 * (cnt + 1 + 1) \<le> mapped (seg_size ?sg)" using room(2) by simp
  note p2 = at1 room(1) this
  have "(own_step st i)\<^sup>*\<^sup>* s ?u"
    using push_rest_room [OF assms(1,2,4)] assms(6) by (intro own_run_exists) (simp_all del: rest_of.simps)
  moreover have "(own_step st j)\<^sup>*\<^sup>* ?u ?t"
    using push_rest_room [OF p2] assms(5,7) by (intro own_run_exists) (simp_all del: rest_of.simps)
  moreover have "elems ?w2 st = elems (kern s) st @ [v1, v2]"
    using elems_pushed [OF p2] elems_pushed [OF assms(1,2,4)] by simp
  moreover have "get_count ?w2 st = cnt + 2" 
    using stack_at_reads(2) [OF pushed_at [OF p2]] by simp
  ultimately show "\<exists>u t. (own_step st i)\<^sup>*\<^sup>* s u \<and> (own_step st j)\<^sup>*\<^sup>* u t \<and>
        pcs t i = Returned 0 None \<and> pcs t j = Returned 0 None \<and>
        get_count (kern t) st = cnt + 2 \<and> elems (kern t) st = elems (kern s) st @ [v1, v2]"
    using assms(5) by (intro exI [of _ ?u] exI [of _ ?t]) simp
qed

text \<open>Two processes that have just called \<open>push\<close>, the values 7 and 9.\<close>

definition two_pushes :: "world \<Rightarrow> psys" where
  "two_pushes w = goto (goto (all_ready w) 0 w (Push_size 7)) 1 w (Push_size 9)"

theorem overlapping_pushes_lose_one_witness:
  "elems (demo 1) (demo_st (-1)) = [100] \<and>
   (\<exists>t. (\<lambda>a b. own_step (demo_st (-1)) 0 a b \<or> own_step (demo_st (-1)) 1 a b)\<^sup>*\<^sup>* (two_pushes (demo 1)) t \<and>
      elems (kern t) (demo_st (-1)) = [100, 9, 102] \<and>
      pcs t 0 = Returned 0 None \<and> pcs t 1 = Returned 0 None) \<and>
   (\<exists>u t. (own_step (demo_st (-1)) 0)\<^sup>*\<^sup>* (two_pushes (demo 1)) u \<and> (own_step (demo_st (-1)) 1)\<^sup>*\<^sup>* u t \<and>
      elems (kern t) (demo_st (-1)) = [100, 7, 9])"
proof -
  have k: "kern (two_pushes (demo 1)) = demo 1" "pcs (two_pushes (demo 1)) 0 = Push_size 7"
    "pcs (two_pushes (demo 1)) 1 = Push_size 9" by (simp_all add: two_pushes_def)
  have a: "stack_at (kern (two_pushes (demo 1))) (demo_st (-1)) 1 5 1 demo_seg" using demo_at [of 1 "-1"] k by simp
  have r: "8 * ((1::int) + 1) \<le> mapped (seg_size demo_seg)" "8 * ((1::int) + 2) \<le> mapped (seg_size demo_seg)"
    using demo_room by simp_all
  have "(5::int) < SEMVMX" "(1::int) < 5" "(0::nat) \<noteq> 1" by (simp_all add: SEMVMX_def)
  note o = overlapping_pushes_lose_one [OF a \<open>1 < 5\<close> \<open>5 < SEMVMX\<close> r(1) \<open>0 \<noteq> 1\<close> k(2,3)]
  show ?thesis using o r(2) by (auto simp: k demo_reads demo_seg_mem)
qed

text \<open>A process inside the critical section: the hypotheses of \<open>mutual_exclusion\<close> can hold.\<close>
theorem mutual_exclusion_witness:
  "\<exists>s i j. (cstep (demo_st (-1)))\<^sup>*\<^sup>* (all_ready (demo 2)) s \<and> critical (pcs s i) \<and>
    critical (pcs s j) \<and> i = j"
proof -
  let ?st = "demo_st (-1)" let ?a = "goto (all_ready (demo 2)) 0 (demo 2) (Push_lock 9 2)"
  let ?s = "goto ?a 0 (snd (projr (semop (demo 2) 2 2 (-1)))) (Push_store 9 2)"
  have "(cstep ?st)\<^sup>*\<^sup>* (all_ready (demo 2)) ?a"
    using push_to_lock [of "all_ready (demo 2)" ?st 1 5 2 demo_seg 0 9] demo_at [of 2 "-1"]
    by (simp add: all_ready_def)
  moreover have "cstep ?st ?a ?s"
    by (rule cstep.push_lock [where r = 0]) (simp_all add: semop_def demo_def SEMVMX_def)
  ultimately have r: "(cstep ?st)\<^sup>*\<^sup>* (all_ready (demo 2)) ?s" by simp
  have c: "critical (pcs ?s 0)" by simp
  have "(0::nat) = 0" by (rule mutual_exclusion [OF demo_inv r c c]) simp_all
  with r c show ?thesis by blast
qed

theorem uninterrupted_calls_are_atomic_witness:
  "\<exists>n t w'. (own_step (demo_st (-1)) 3 ^^ n) (goto (all_ready (demo 2)) 3 (demo 2) (Push_size 9)) t \<and> n \<le> 6 \<and>
    push [] (demo 2) (demo_st (-1)) 9 = Inr (0, w') \<and> kern t = w' \<and> pcs t 3 = Returned 0 None \<and>
    elems w' (demo_st (-1)) = [100, 101, 9]"
proof -
  let ?st = "demo_st (-1)" let ?s = "goto (all_ready (demo 2)) 3 (demo 2) (Push_size 9)"
  let ?w = "pushed (demo 2) ?st 1 5 2 demo_seg 9"
  have p: "push [] (demo 2) ?st 9 = Inr (0, ?w)"
    by (rule push_run [OF demo_at]) (use demo_room in simp_all)
  then have "(own_step ?st 3)\<^sup>*\<^sup>* ?s (goto ?s 3 ?w (Returned 0 None))"
    by (intro own_run_exists) (simp_all add: rest_of_push del: rest_of.simps)
  then obtain n where n: "(own_step ?st 3 ^^ n) ?s (goto ?s 3 ?w (Returned 0 None))"
    by (auto dest: rtranclp_imp_relpowp)
  have "\<forall>u. \<not> own_step ?st 3 (goto ?s 3 ?w (Returned 0 None)) u" by (simp add: own_step_def)
  then show ?thesis
    using uninterrupted_calls_are_atomic [OF _ n, of 9] n p demo_inv [of 2 "-1"]
    by (intro exI [of _ n] exI [of _ "goto ?s 3 ?w (Returned 0 None)"] exI [of _ ?w])
      (auto simp: demo_reads numeral_2_eq_2)
qed

end
