(* ===== verification/StackMain.thy ===== *)
theory StackMain
  imports StackConc
begin

section \<open>The stack's programs: \<open>sh_stack/main.c\<close> and \<open>sh_stack/test.c\<close>\<close>

text \<open>
  \<open>main.c\<close> reads instructions from a file or from standard input and runs them on one stack,
  the global \<open>stack\<close>; after \<open>detach_stack\<close> or \<open>mark_destruct\<close> has freed the handle the
  global still points to it, which the model records as \<open>None\<close>. \<open>inp\<close> is the text still
  unread, \<open>brk\<close> the address the next \<open>malloc\<close> returns (32 bytes apart for requests of 10), which
  is taken to succeed. The parameter \<open>fresh\<close> is what the memory handed out at an address holds
  before anything is stored there.
\<close>

type_synonym buffer = "nat \<Rightarrow> char"

record prog =
  kw :: world
  hnd :: "stack_t option"
  inp :: string
  brk :: voidp

definition say :: "string \<Rightarrow> prog \<Rightarrow> prog" where
  "say s p = p\<lparr>kw := printf (kw p) s\<rparr>"

definition newline :: string where
  "newline = [CHR 0x0A]"

definition with_stack :: "prog \<Rightarrow> (stack_t \<Rightarrow> 'a res) \<Rightarrow> 'a res" where
  "with_stack p f = (case hnd p of None \<Rightarrow> Inl Use_after_free | Some st \<Rightarrow> f st)"

definition scan_int :: "prog \<Rightarrow> int option \<times> prog" where
  "scan_int p = (case scan_d (inp p) of (r, t) \<Rightarrow> (r, p\<lparr>inp := t\<rparr>))"

text \<open>\<open>%s\<close> into a buffer of ten bytes: at the end of the input \<open>fscanf\<close> stores nothing, and its
  result is not looked at.\<close>

definition scan_word :: "buffer \<Rightarrow> prog \<Rightarrow> (buffer \<times> prog) res" where
  "scan_word buf p = (case scan_s (inp p) of
       (None, t) \<Rightarrow> Inr (buf, p\<lparr>inp := t\<rparr>)
     | (Some s, t) \<Rightarrow>
         if 10 \<le> length s then Inl Overflow
         else Inr (\<lambda>i. if i < length s then s ! i else if i = length s then nul else buf i, p\<lparr>inp := t\<rparr>))"

text \<open>The string in such a buffer, for \<open>printf\<close>.\<close>

definition buf_str :: "buffer \<Rightarrow> string res" where
  "buf_str buf = (let s = map buf [0..<10] in if nul \<in> set s then Inr (cstr s) else Inl Segv)"

definition do_get :: "buffer \<Rightarrow> prog \<Rightarrow> (int \<times> prog) res" where
  "do_get instr p =
    (if instr 4 = CHR ''s'' then with_stack p (\<lambda>st.
       Inr (0, say (''size is '' @ show_int (get_size (kw p) st) @ newline) p))
     else if instr 4 = CHR ''c'' then with_stack p (\<lambda>st.
       Inr (0, say (''count is '' @ show_int (get_count (kw p) st) @ newline) p))
     else Inr (0, p))"

definition do_set_wait :: "prog \<Rightarrow> (int \<times> prog) res" where
  "do_set_wait p =
     (let (r, p) = scan_int p;
          wt = (case r of None \<Rightarrow> 0 | Some v \<Rightarrow> v)
      in if wt = 1 then
           (let (a, p) = scan_int p;
                (b, p) = (case a of None \<Rightarrow> (None, p) | Some _ \<Rightarrow> scan_int p)
            in case (a, b) of
                 (Some x, Some y) \<Rightarrow> with_stack p (\<lambda>st.
                    Inr (0, p\<lparr>hnd := Some (snd (set_wait st wt (x, y)))\<rparr>))
               | _ \<Rightarrow> Inl Indeterminate)
         else if wt = 0 \<or> wt = -1 then with_stack p (\<lambda>st.
           Inr (0, p\<lparr>hnd := Some (snd (set_wait st wt (0, 0)))\<rparr>))
         else Inr (0, p))"

definition do_push :: "(voidp \<Rightarrow> buffer) \<Rightarrow> interference \<Rightarrow> prog \<Rightarrow> (int \<times> prog) res" where
  "do_push fresh es p =
     (let val = brk p; p = p\<lparr>brk := brk p + 32\<rparr>
      in rbind (scan_word (fresh val) p) (\<lambda>(input, p).
         with_stack p (\<lambda>st.
         rbind (push es (kw p) st val) (\<lambda>(ret, w).
           (let p = p\<lparr>kw := w\<rparr>
            in if ret = 0 then rbind (buf_str input) (\<lambda>s.
                 Inr (0, say (''pushed '' @ show_ptr val @ '' '' @ s @ newline) p))
               else if ret = -1 then rbind (buf_str input) (\<lambda>s.
                 Inr (0, say (''stack is overflowed, '' @ show_ptr val @ '' '' @ s
                   @ '' cannot be pushed'' @ newline) p))
               else Inr (0, p))))))"

definition do_pop :: "interference \<Rightarrow> prog \<Rightarrow> (int \<times> prog) res" where
  "do_pop es p = with_stack p (\<lambda>st.
     rbind (pop es (kw p) st) (\<lambda>(ret, v, w).
       (let p = p\<lparr>kw := w\<rparr>
        in Inr (0, case v of
               Some x \<Rightarrow> say (''popped '' @ show_ptr x @ newline) p
             | None \<Rightarrow> say (''stack is empty'' @ newline) p))))"

definition handler :: "(voidp \<Rightarrow> buffer) \<Rightarrow> interference \<Rightarrow> prog \<Rightarrow> (int \<times> prog) res" where
  "handler fresh es p =
     (let instr = fresh (brk p + 3 * 32); p = p\<lparr>brk := brk p + 4 * 32\<rparr>
      in rbind (scan_word instr p) (\<lambda>(instr, p).
         (let c = instr 0
          in if c = CHR ''f'' then Inr (1, p)
             else if c = CHR ''g'' then do_get instr p
             else if c = CHR ''s'' then do_set_wait p
             else if c = CHR ''p'' then
              (if instr 1 = CHR ''u'' then do_push fresh es p
               else if instr 1 = CHR ''o'' then do_pop es p
               else if instr 1 = CHR ''r'' then with_stack p (\<lambda>st.
                 rbind (print_all es (kw p) st) (\<lambda>(r, w). Inr (0, p\<lparr>kw := w\<rparr>)))
               else Inr (0, p))
             else if c = CHR ''d'' then
               (let p = say (''stack has been detached'' @ newline) p
                in with_stack p (\<lambda>st.
                     Inr (0, p\<lparr>kw := snd (detach_stack (kw p) st), hnd := None\<rparr>)))
             else if c = CHR ''m'' then with_stack p (\<lambda>st.
               Inr (1, p\<lparr>kw := snd (mark_destruct (kw p) st), hnd := None\<rparr>))
             else Inr (0, p))))"

text \<open>
  The first \<open>n\<close> rounds of the loop \<open>while (1)\<close> of \<open>main\<close>: \<open>None\<close> when they have not ended it. At the
  end of the input the loop goes on with what \<open>fresh\<close> holds, so no number of rounds need be enough
  (\<open>script_is_executed\<close> below).
\<close>

fun session :: "nat \<Rightarrow> (voidp \<Rightarrow> buffer) \<Rightarrow> interference \<Rightarrow> prog \<Rightarrow> (int \<times> prog) res option" where
  "session 0 fresh es p = None"
| "session (Suc n) fresh es p = (case handler fresh es p of
       Inl e \<Rightarrow> Some (Inl e)
     | Inr (flag, p') \<Rightarrow>
         if flag \<noteq> 0 then Some (Inr (0, say (''test finished'' @ newline) p'))
         else session n fresh es p')"

definition help_text :: string where
  "help_text = ''This stack includes following instruction:'' @ newline @
     CHR 0x09 # ''get_size (get_s)'' @ newline @ CHR 0x09 # ''get_count (get_c)'' @ newline @
     CHR 0x09 # ''push [input] (pu [input])'' @ newline @ CHR 0x09 # ''pop (po)'' @ newline @
     CHR 0x09 # ''set_wait (s) [val] [seconds] [nanoseconds] (if val == 1, two numbers must be inputted)'' @ newline @
     CHR 0x09 # ''print_all (pr)'' @ newline @ CHR 0x09 # ''detach_stack (d)'' @ newline @
     CHR 0x09 # ''mark_destruct (m)'' @ newline @
     CHR 0x09 # ''finish (f) (this instruction finishes the test)'' @ newline @ newline @
     ''Print any instruction to continue...'' @ newline"

text \<open>
  \<open>main\<close> with at most \<open>n\<close> rounds of its loop: \<open>from_file\<close> tells whether a file was named, \<open>text\<close> is its content or standard
  input, \<open>key\<close> what \<open>ftok\<close> returns (\<open>assert(key > 0)\<close>). Without a number to read, the
  file mode keeps \<open>size = 0\<close> and the interactive mode uses an uninitialised variable.
\<close>

definition main_stack :: "nat \<Rightarrow> (voidp \<Rightarrow> buffer) \<Rightarrow> interference \<Rightarrow> bool \<Rightarrow> string \<Rightarrow> int \<Rightarrow> world \<Rightarrow> voidp \<Rightarrow> (int \<times> prog) res option" where
  "main_stack n fresh es from_file text key w brk0 =
     (let w = (if from_file then w else printf w (''Please enter the size of stack'' @ newline));
          (r, t) = scan_d text
      in if r = None \<and> \<not> from_file then Some (Inl Indeterminate)
         else if key \<le> 0 then Some (Inl Aborted)
         else
           (let (h, w) = attach_stack w key (case r of None \<Rightarrow> 0 | Some v \<Rightarrow> v);
                p = \<lparr>kw = w, hnd = h, inp = t, brk = brk0\<rparr>
            in case h of
                 None \<Rightarrow> Some (Inr (-1, say (''stack cannot be attached'' @ newline) p))
               | Some st \<Rightarrow>
                   (let p = say (''stack attached'' @ newline @ newline) p
                    in if from_file then session n fresh es p
                       else (case print_all es (kw p) st of
                           Inl e \<Rightarrow> Some (Inl e)
                         | Inr (_, w) \<Rightarrow> session n fresh es (say help_text (p\<lparr>kw := w\<rparr>))))))"

subsection \<open>A script\<close>

text \<open>
  The instructions of the readme that work on the stack, in the long or the short spelling, one per
  line. \<open>instr_spec\<close> says what one of them prints and does on a list of pointers of bounded length;
  the pointer pushed is the buffer \<open>malloc\<close> gave for the text.
\<close>

datatype instruction = I_push string | I_pop | I_size | I_count | I_print

fun spelled :: "bool \<Rightarrow> instruction \<Rightarrow> string" where
  "spelled long (I_push u) = (if long then ''push'' else ''pu'')"
| "spelled long I_pop = (if long then ''pop'' else ''po'')"
| "spelled long I_size = (if long then ''get_size'' else ''get_s'')"
| "spelled long I_count = (if long then ''get_count'' else ''get_c'')"
| "spelled long I_print = (if long then ''print_all'' else ''pr'')"

fun argument :: "instruction \<Rightarrow> string" where
  "argument (I_push u) = CHR '' '' # u @ newline"
| "argument i = newline"

definition script :: "(bool \<times> instruction) list \<Rightarrow> string" where
  "script is = concat (map (\<lambda>(long, i). spelled long i @ argument i) is)"

definition word_ok :: "string \<Rightarrow> bool" where
  "word_ok u \<longleftrightarrow> u \<noteq> [] \<and> length u < 10 \<and> (\<forall>c \<in> set u. \<not> isspace c \<and> c \<noteq> nul)"

fun instr_ok :: "instruction \<Rightarrow> bool" where
  "instr_ok (I_push u) = word_ok u"
| "instr_ok i = True"

fun show_ptrs :: "voidp list \<Rightarrow> string" where
  "show_ptrs [] = []"
| "show_ptrs [v] = show_ptr v"
| "show_ptrs (v # w # vs) = show_ptr v @ '', '' @ show_ptrs (w # vs)"

fun instr_spec :: "int \<Rightarrow> voidp \<Rightarrow> voidp list \<Rightarrow> instruction \<Rightarrow> string \<times> voidp list \<times> voidp" where
  "instr_spec cap b xs (I_push u) =
     (let v = b + 4 * 32 in
      if int (length xs) < cap
      then (''pushed '' @ show_ptr v @ '' '' @ u @ newline, xs @ [v], b + 4 * 32 + 32)
      else (''stack is overflowed, '' @ show_ptr v @ '' '' @ u @ '' cannot be pushed'' @ newline, xs, b + 4 * 32 + 32))"
| "instr_spec cap b xs I_pop =
     (if xs = [] then (''stack is empty'' @ newline, xs, b + 4 * 32)
      else (''popped '' @ show_ptr (last xs) @ newline, butlast xs, b + 4 * 32))"
| "instr_spec cap b xs I_size = (''size is '' @ show_int cap @ newline, xs, b + 4 * 32)"
| "instr_spec cap b xs I_count = (''count is '' @ show_int (int (length xs)) @ newline, xs, b + 4 * 32)"
| "instr_spec cap b xs I_print =
     (''size is '' @ show_int cap @ '', count is '' @ show_int (int (length xs)) @ '', stack is {'' @
      show_ptrs xs @ ''}'' @ newline, xs, b + 4 * 32)"

fun script_spec :: "int \<Rightarrow> voidp \<Rightarrow> voidp list \<Rightarrow> instruction list \<Rightarrow> string \<times> voidp list" where
  "script_spec cap b xs [] = ([], xs)"
| "script_spec cap b xs (i # is) =
     (case instr_spec cap b xs i of (s, xs', b') \<Rightarrow>
        (case script_spec cap b' xs' is of (s', xs'') \<Rightarrow> (s @ s', xs'')))"

lemma with_stack_Inr: "with_stack p f = Inr x \<longleftrightarrow> (\<exists>st. hnd p = Some st \<and> f st = Inr x)"
  by (simp add: with_stack_def split: option.split)

lemma with_stack_Some [simp]: "hnd p = Some st \<Longrightarrow> with_stack p f = f st"
  by (simp add: with_stack_def)

lemma inp_say [simp]:
  "inp (say s p) = inp p" "hnd (say s p) = hnd p" "kw (say s p) = printf (kw p) s" "brk (say s p) = brk p"
  by (simp_all add: say_def)

text \<open>Reading a word, with white space in front of it and some behind it.\<close>

lemma scan_s_word:
  assumes "\<forall>c \<in> set ws. isspace c" "u \<noteq> []" "\<forall>c \<in> set u. \<not> isspace c" "isspace d"
  shows "scan_s (ws @ u @ d # t) = (Some u, d # t)"
proof -
  obtain x y where u: "u = x # y" using assms(2) by (cases u) auto
  have "dropWhile isspace (ws @ u @ d # t) = u @ d # t" using assms(1,3) u by (simp add: dropWhile_append3)
  moreover have "takeWhile (\<lambda>c. \<not> isspace c) (u @ d # t) = u" "dropWhile (\<lambda>c. \<not> isspace c) (u @ d # t) = d # t"
    using assms(3,4) by (simp_all add: takeWhile_append dropWhile_append)
  ultimately show ?thesis using u by (simp add: scan_s_def)
qed

lemma scan_s_spaces: "\<forall>c \<in> set ws. isspace c \<Longrightarrow> scan_s ws = (None, [])"
  by (simp add: scan_s_def)

lemma isspace_seps [simp]: "isspace (CHR '' '')" "isspace (CHR 0x0A)"
  by (simp_all add: isspace_def)

definition stored_word :: "buffer \<Rightarrow> string \<Rightarrow> buffer" where
  "stored_word buf u = (\<lambda>i. if i < length u then u ! i else if i = length u then nul else buf i)"

lemma scan_word_word:
  assumes "inp p = ws @ u @ d # t" "\<forall>c \<in> set ws. isspace c" "u \<noteq> []" "\<forall>c \<in> set u. \<not> isspace c" "isspace d"
  shows "scan_word buf p = (if 10 \<le> length u then Inl Overflow else Inr (stored_word buf u, p\<lparr>inp := d # t\<rparr>))"
  using scan_s_word [OF assms(2-)] assms(1) by (simp add: scan_word_def stored_word_def)

lemma buf_str_stored:
  assumes "word_ok u"
  shows "buf_str (stored_word buf u) = Inr u"
proof -
  have w: "map (stored_word buf u) [0..<length u] = u"
    by (rule nth_equalityI) (simp_all add: stored_word_def)
  have l: "length u < 10" and n: "nul \<notin> set u" using assms by (auto simp: word_ok_def)
  have "map (stored_word buf u) [0..<10] = map (stored_word buf u) ([0..<length u] @ [length u] @ [Suc (length u)..<10])"
    using l by (metis append_Cons append_Nil upt_conv_Cons upt_add_eq_append less_imp_le le0 le_add_diff_inverse)
  also have "\<dots> = u @ nul # map buf [Suc (length u)..<10]"
    using w by (simp add: stored_word_def)
  finally have m: "map (stored_word buf u) [0..<10] = u @ nul # map buf [Suc (length u)..<10]" .
  show ?thesis unfolding buf_str_def m using n by (simp add: cstr_append_nul)
qed

text \<open>Printing the slots.\<close>

lemma print_slots_run:
  "sh_stack st = Some n \<Longrightarrow> shm_seg w n = Some sg \<Longrightarrow> 8 * cnt \<le> mapped (seg_size sg) \<Longrightarrow> i \<le> nat cnt \<Longrightarrow>
     print_slots w st (int i) cnt = Inr (printf w (show_ptrs (map (seg_mem sg) [i..<nat cnt])))"
proof (induction "nat cnt - i" arbitrary: i w)
  case 0
  then have "\<not> int i < cnt" by linarith
  then show ?case using 0 by (simp add: print_slots.simps [of w st "int i" cnt] printf_def)
next
  case (Suc k)
  have lt: "int i < cnt" "i < nat cnt" using Suc.hyps(2) by linarith+
  have g: "in_seg sg (int i)" using Suc.prems lt by (simp add: in_seg_def)
  let ?w = "printf w (show_ptr (seg_mem sg i) @ (if int i \<noteq> cnt - 1 then '', '' else []))"
  have "print_slots ?w st (int (Suc i)) cnt = Inr (printf ?w (show_ptrs (map (seg_mem sg) [Suc i..<nat cnt])))"
    using Suc.hyps(2) Suc.prems lt by (intro Suc.hyps(1)) simp_all
  moreover have "print_slots w st (int i) cnt = print_slots ?w st (int (Suc i)) cnt"
    using Suc.prems g lt by (simp add: print_slots.simps [of w st "int i" cnt] read_slot_def add.commute)
  moreover have "show_ptrs (map (seg_mem sg) [i..<nat cnt]) =
      show_ptr (seg_mem sg i) @ (if int i \<noteq> cnt - 1 then '', '' else []) @ show_ptrs (map (seg_mem sg) [Suc i..<nat cnt])"
  proof (cases "int i = cnt - 1")
    case True
    then have "nat cnt = Suc i" by linarith
    then show ?thesis using True by simp
  next
    case False
    then have "Suc i < nat cnt" using lt by linarith
    then show ?thesis using False lt by (simp add: upt_conv_Cons)
  qed
  ultimately show ?case by (simp add: printf_def)
qed

lemma print_all_run:
  assumes "stack_at w st n cap cnt sg"
  shows "print_all es w st = Inr (0, printf w (''size is '' @ show_int cap @ '', count is '' @ show_int cnt @
    '', stack is {'' @ show_ptrs (elems w st) @ ''}'' @ newline))"
proof -
  note a = assms [unfolded stack_at_def]
  let ?w1 = "w\<lparr>sem_set := (sem_set w)(sem st \<mapsto> [cap, cnt, 0])\<rparr>"
  have p: "print_slots (printf ?w1 x) st 0 cnt = Inr (printf (printf ?w1 x) (show_ptrs (map (seg_mem sg) [0..<nat cnt])))" for x
    using print_slots_run [of st n "printf ?w1 x" sg cnt 0] a by simp
  have u: "(sem_set w)(sem st \<mapsto> [cap, cnt, 1]) = sem_set w" using a by (simp add: fun_upd_idem)
  have l: "semop_wait es w (sem st) 2 (-1) = Inr (?w1, es)"
    using a by (intro semop_wait_ok) (simp add: semop_def SEMVMX_def)
  have g: "semop_wait es (printf (printf (printf ?w1 x) y) z) (sem st) 2 1 =
      Inr (printf (printf (printf w x) y) z, es)" for x y z
    using a u by (intro semop_wait_ok) (simp add: semop_def SEMVMX_def printf_def)
  show ?thesis
    unfolding print_all_def
    by (simp add: l p g stack_at_reads [OF assms] Let_def) (simp add: printf_def newline_def)
qed

text \<open>One round on an instruction.\<close>

lemma spelled_ok:
  "spelled long i \<noteq> [] \<and> (\<forall>c \<in> set (spelled long i). \<not> isspace c) \<and> length (spelled long i) < 10"
  by (cases i) (simp_all add: isspace_def)

text \<open>The bytes the handler looks at.\<close>

lemma instr_bytes:
  "stored_word buf (spelled long (I_push u)) 0 = CHR ''p''" "stored_word buf (spelled long (I_push u)) (Suc 0) = CHR ''u''"
  "stored_word buf (spelled long I_pop) 0 = CHR ''p''" "stored_word buf (spelled long I_pop) (Suc 0) = CHR ''o''"
  "stored_word buf (spelled long I_print) 0 = CHR ''p''" "stored_word buf (spelled long I_print) (Suc 0) = CHR ''r''"
  "stored_word buf (spelled long I_size) 0 = CHR ''g''" "stored_word buf (spelled long I_size) 4 = CHR ''s''"
  "stored_word buf (spelled long I_count) 0 = CHR ''g''" "stored_word buf (spelled long I_count) 4 = CHR ''c''"
  by (simp_all add: stored_word_def)

definition running :: "prog \<Rightarrow> stack_t \<Rightarrow> bool" where
  "running p st \<longleftrightarrow> hnd p = Some st \<and> stack_inv (kw p) st \<and> wait st = -1"

lemma handler_word:
  assumes "inp p = ws @ u @ d # t" "\<forall>c \<in> set ws. isspace c" "u \<noteq> []" "\<forall>c \<in> set u. \<not> isspace c"
    "isspace d" "length u < 10"
  shows "scan_word (fresh (brk p + 3 * 32)) (p\<lparr>brk := brk p + 4 * 32\<rparr>) =
    Inr (stored_word (fresh (brk p + 3 * 32)) u, p\<lparr>brk := brk p + 4 * 32, inp := d # t\<rparr>)"
  using scan_word_word [OF _ assms(2-5), of "p\<lparr>brk := brk p + 4 * 32\<rparr>"] assms(1,6) by simp

lemma handler_dispatch:
  assumes "scan_word (fresh (brk p + 3 * 32)) (p\<lparr>brk := brk p + 4 * 32\<rparr>) = Inr (buf, q)"
  shows "buf 0 = CHR ''p'' \<Longrightarrow> buf 1 = CHR ''u'' \<Longrightarrow> handler fresh es p = do_push fresh es q"
    and "buf 0 = CHR ''p'' \<Longrightarrow> buf 1 = CHR ''o'' \<Longrightarrow> handler fresh es p = do_pop es q"
    and "buf 0 = CHR ''p'' \<Longrightarrow> buf 1 = CHR ''r'' \<Longrightarrow> handler fresh es p = with_stack q (\<lambda>st.
      rbind (print_all es (kw q) st) (\<lambda>(r, w). Inr (0, q\<lparr>kw := w\<rparr>)))"
    and "buf 0 = CHR ''g'' \<Longrightarrow> handler fresh es p = do_get buf q"
    and "buf 0 = CHR ''f'' \<Longrightarrow> handler fresh es p = Inr (1, q)"
    and "buf 0 = nul \<Longrightarrow> handler fresh es p = Inr (0, q)"
  using assms by (simp_all add: handler_def Let_def)

lemma printf_reads [simp]:
  "stack_inv (printf w z) st = stack_inv w st" "elems (printf w z) st = elems w st"
  "get_size (printf w z) st = get_size w st"
  by (simp_all add: stack_inv_def elems_def get_count_def get_size_def semctl_getval_def cong: option.case_cong)

text \<open>What \<open>pop\<close> does, for any interference, in a form for the interpreter.\<close>

lemma pop_takes_last_run:
  assumes "stack_inv w st" and "elems w st \<noteq> []"
  shows "\<exists>w'. pop es w st = Inr (0, Some (last (elems w st)), w') \<and> stack_inv w' st \<and>
    elems w' st = butlast (elems w st) \<and> get_size w' st = get_size w st \<and> out w' = out w"
proof -
  obtain n cap cnt sg where a: "stack_at w st n cap cnt sg" and m: "8 * cap \<le> mapped (seg_size sg)"
    using assms(1) ..
  have pos: "0 < cnt" using assms(2) stack_at_cnt [OF a] by (cases "cnt = 0") (simp_all add: stack_at_reads [OF a])
  note p = popped_at [OF a pos]
  show ?thesis
    using pop_run [OF a pos, of es] elems_popped [OF a pos] stack_at_inv [OF p m]
      stack_at_reads(1) [OF p] stack_at_reads(1) [OF a]
    by (simp add: popped_def)
qed

lemma do_push_run:
  assumes "running q st" "inp q = CHR '' '' # u @ CHR 0x0A # r" "word_ok u"
    and "instr_spec (get_size (kw q) st) b (elems (kw q) st) (I_push u) = (s, xs, b')" "brk q = b + 4 * 32"
  shows "\<exists>p'. do_push fresh es q = Inr (0, p') \<and> running p' st \<and> inp p' = CHR 0x0A # r \<and> brk p' = b' \<and>
    elems (kw p') st = xs \<and> get_size (kw p') st = get_size (kw q) st \<and> out (kw p') = out (kw q) @ s"
proof -
  from assms(1) have h: "hnd q = Some st" and w: "wait st = -1" and inv: "stack_inv (kw q) st"
    by (simp_all add: running_def)
  obtain n cap cnt sg where a: "stack_at (kw q) st n cap cnt sg" and m: "8 * cap \<le> mapped (seg_size sg)"
    using inv ..
  let ?q = "q\<lparr>brk := brk q + 32, inp := CHR 0x0A # r\<rparr>"
  have s2: "scan_word buf (q\<lparr>brk := brk q + 32\<rparr>) = Inr (stored_word buf u, ?q)" for buf
    using scan_word_word [of "q\<lparr>brk := brk q + 32\<rparr>" "'' ''" u "CHR 0x0A" r buf] assms(2,3)
    by (simp add: word_ok_def)
  have step: "do_push fresh es q = rbind (push es (kw q) st (brk q)) (\<lambda>(ret, w). (let q' = ?q\<lparr>kw := w\<rparr> in
        if ret = 0 then Inr (0, say (''pushed '' @ show_ptr (brk q) @ '' '' @ u @ newline) q')
        else if ret = -1 then Inr (0, say (''stack is overflowed, '' @ show_ptr (brk q) @ '' '' @ u
                   @ '' cannot be pushed'' @ newline) q')
        else Inr (0, q')))"
    unfolding do_push_def Let_def s2 rbind_simps prod.case
    by (simp add: h buf_str_stored [OF assms(3)] cong: if_cong)
  show ?thesis
  proof (cases "cnt < cap")
    case True
    then have m1: "8 * (cnt + 1) \<le> mapped (seg_size sg)" using m by simp
    let ?w = "pushed (kw q) st n cap cnt sg (brk q)"
    have p: "push es (kw q) st (brk q) = Inr (0, ?w)" by (rule push_run [OF a True m1])
    have o: "out ?w = out (kw q)" by (simp add: pushed_def)
    have i: "stack_inv ?w st" using stack_at_inv [OF pushed_at [OF a True m1]] m by simp
    have "get_size ?w st = cap" by (rule stack_at_reads(1) [OF pushed_at [OF a True m1]])
    moreover have "stack_inv (printf ?w z) st" for z using i by simp
    moreover have "elems (printf ?w z) st = elems (kw q) st @ [b + 4 * 32]" "get_size (printf ?w z) st = get_size ?w st" for z
      using elems_pushed [OF a True m1, of "brk q"] assms(5) by simp_all
    ultimately show ?thesis
      using assms(4,5) True stack_at_length [OF a] stack_at_cnt [OF a] stack_at_reads(1) [OF a] h w o
      unfolding step p by (auto simp: running_def Let_def)
  next
    case False
    then have "cnt = cap" using stack_at_cnt [OF a] by simp
    then have p: "push es (kw q) st (brk q) = Inr (-1, kw q)" using push_full_run [OF a _ w] by simp
    then show ?thesis
      using inv assms(4,5) False stack_at_length [OF a] stack_at_cnt [OF a] stack_at_reads(1) [OF a] h w
      unfolding step p by (auto simp: running_def Let_def)
  qed
qed

lemma handler_instr:
  assumes "running p st" "inp p = ws @ spelled long i @ argument i @ r" "\<forall>c \<in> set ws. isspace c" "instr_ok i"
    and spec: "instr_spec (get_size (kw p) st) (brk p) (elems (kw p) st) i = (s, xs, b)"
  shows "\<exists>p'. handler fresh es p = Inr (0, p') \<and> running p' st \<and> inp p' = CHR 0x0A # r \<and> brk p' = b \<and>
    elems (kw p') st = xs \<and> get_size (kw p') st = get_size (kw p) st \<and> out (kw p') = out (kw p) @ s"
proof -
  from assms(1) have h: "hnd p = Some st" and w: "wait st = -1" and inv: "stack_inv (kw p) st"
    by (simp_all add: running_def)
  obtain n cap cnt sg where a: "stack_at (kw p) st n cap cnt sg" using inv ..
  let ?buf = "stored_word (fresh (brk p + 3 * 32)) (spelled long i)"
  have word: "scan_word (fresh (brk p + 3 * 32)) (p\<lparr>brk := brk p + 4 * 32\<rparr>) =
      Inr (?buf, p\<lparr>brk := brk p + 4 * 32, inp := d # t\<rparr>)" if "argument i @ r = d # t" "isspace d" for d t
    using handler_word [of p ws "spelled long i" d t] that assms(2,3) spelled_ok by simp
  have line: "argument i @ r = CHR 0x0A # r" if "\<forall>u. i \<noteq> I_push u"
    using that by (cases i) (simp_all add: newline_def)
  note word1 = word [OF line isspace_seps(2)]
  show ?thesis
  proof (cases i)
    case (I_push u)
    let ?q = "p\<lparr>brk := brk p + 4 * 32, inp := CHR '' '' # u @ CHR 0x0A # r\<rparr>"
    have "handler fresh es p = do_push fresh es ?q"
      by (rule handler_dispatch(1) [where fresh = fresh and p = p, OF word]) (simp_all add: I_push newline_def instr_bytes del: spelled.simps)
    then show ?thesis
      using do_push_run [of ?q st u r "brk p" s xs b fresh es] assms I_push by (simp add: running_def)
  next
    case I_pop
    let ?q = "p\<lparr>brk := brk p + 4 * 32, inp := CHR 0x0A # r\<rparr>"
    have step: "handler fresh es p = do_pop es ?q"
      by (rule handler_dispatch(2) [where fresh = fresh and p = p, OF word1]) (simp_all add: I_pop instr_bytes del: spelled.simps)
    show ?thesis
    proof (cases "cnt = 0")
      case True
      then have "pop es (kw p) st = Inr (-1, None, kw p)" using pop_empty_run [of "kw p" st n cap sg es] a w by simp
      moreover have "elems (kw p) st = []" using stack_at_length [OF a] True by simp
      ultimately show ?thesis
        using step spec I_pop h w inv by (auto simp: do_pop_def running_def)
    next
      case False
      then have pos: "0 < cnt" using stack_at_cnt [OF a] by simp
      then have "elems (kw p) st \<noteq> []" using stack_at_length [OF a] by auto
      then show ?thesis
        using pop_takes_last_run [OF inv, of es] step spec I_pop h w by (auto simp: do_pop_def running_def)
    qed
  next
    case I_size
    let ?q = "p\<lparr>brk := brk p + 4 * 32, inp := CHR 0x0A # r\<rparr>"
    have "handler fresh es p = do_get ?buf ?q"
      by (rule handler_dispatch(4) [where fresh = fresh and p = p, OF word1]) (simp_all add: I_size instr_bytes del: spelled.simps)
    then show ?thesis using I_size instr_bytes(8) h w spec inv by (auto simp: do_get_def running_def simp del: spelled.simps)
  next
    case I_count
    let ?q = "p\<lparr>brk := brk p + 4 * 32, inp := CHR 0x0A # r\<rparr>"
    have "handler fresh es p = do_get ?buf ?q"
      by (rule handler_dispatch(4) [where fresh = fresh and p = p, OF word1]) (simp_all add: I_count instr_bytes del: spelled.simps)
    then show ?thesis
      using I_count instr_bytes(10) h w spec inv stack_at_length [OF a] stack_at_cnt [OF a] stack_at_reads(2) [OF a]
      by (auto simp: do_get_def running_def simp del: spelled.simps)
  next
    case I_print
    let ?q = "p\<lparr>brk := brk p + 4 * 32, inp := CHR 0x0A # r\<rparr>"
    have "handler fresh es p = with_stack ?q (\<lambda>st. rbind (print_all es (kw ?q) st) (\<lambda>(r, w). Inr (0, ?q\<lparr>kw := w\<rparr>)))"
      by (rule handler_dispatch(3) [where fresh = fresh and p = p, OF word1]) (simp_all add: I_print instr_bytes del: spelled.simps)
    then show ?thesis
      using print_all_run [OF a, of es] I_print h w spec inv stack_at_length [OF a] stack_at_cnt [OF a]
        stack_at_reads(1) [OF a]
      by (auto simp: running_def)
  qed
qed

text \<open>The rounds on a script, with anything behind it.\<close>

lemma session_script:
  assumes "running p st" "inp p = ws @ script is @ r" "\<forall>c \<in> set ws. isspace c" "\<forall>(l, i) \<in> set is. instr_ok i"
    and "script_spec (get_size (kw p) st) (brk p) (elems (kw p) st) (map snd is) = (s, xs)"
  shows "\<exists>p' ws'. (\<forall>n. session n fresh es p =
        (if n \<le> length is then None else session (n - length is) fresh es p')) \<and>
      running p' st \<and> inp p' = ws' @ r \<and> (\<forall>c \<in> set ws'. isspace c) \<and>
      elems (kw p') st = xs \<and> out (kw p') = out (kw p) @ s"
  using assms
proof (induction "is" arbitrary: p ws s xs)
  case Nil
  have 0: "session n fresh es p = (if n \<le> length ([] :: (bool \<times> instruction) list) then None
      else session (n - length ([] :: (bool \<times> instruction) list)) fresh es p)" for n
    by (cases n) simp_all
  show ?case by (intro exI [of _ p] exI [of _ ws] conjI allI 0) (use Nil in \<open>simp_all add: script_def\<close>)
next
  case (Cons li "is")
  obtain l i where li: "li = (l, i)" by (cases li)
  obtain s1 xs1 b1 where 1: "instr_spec (get_size (kw p) st) (brk p) (elems (kw p) st) i = (s1, xs1, b1)"
    by (cases "instr_spec (get_size (kw p) st) (brk p) (elems (kw p) st) i")
  obtain s2 where 2: "script_spec (get_size (kw p) st) b1 xs1 (map snd is) = (s2, xs)" "s = s1 @ s2"
    using Cons.prems(5) li 1 by (auto split: prod.splits)
  have i: "inp p = ws @ spelled l i @ argument i @ script is @ r"
    using Cons.prems(2) li by (simp add: script_def)
  obtain q where q: "handler fresh es p = Inr (0, q)" "running q st" "inp q = CHR 0x0A # script is @ r"
      "brk q = b1" "elems (kw q) st = xs1" "get_size (kw q) st = get_size (kw p) st" "out (kw q) = out (kw p) @ s1"
    using handler_instr [OF Cons.prems(1) i Cons.prems(3) _ 1, of fresh es] Cons.prems(4) li by auto
  have "inp q = newline @ script is @ r" "\<forall>c \<in> set newline. isspace c"
    "script_spec (get_size (kw q) st) (brk q) (elems (kw q) st) (map snd is) = (s2, xs)"
    using q 2 by (simp_all add: newline_def)
  from Cons.IH [OF q(2) this(1,2) _ this(3)] Cons.prems(4) obtain p' ws' where
    p': "\<forall>n. session n fresh es q = (if n \<le> length is then None else session (n - length is) fresh es p')"
      "running p' st" "inp p' = ws' @ r" "\<forall>c \<in> set ws'. isspace c" "elems (kw p') st = xs"
      "out (kw p') = out (kw q) @ s2" by auto
  have "session n fresh es p = (if n \<le> Suc (length is) then None else session (n - Suc (length is)) fresh es p')" for n
    using p'(1) q(1) by (cases n) simp_all
  then show ?case using p' q(7) 2(2) by (intro exI [of _ p'] exI [of _ ws']) simp
qed

lemma session_end_of_input:
  "(\<And>a. fresh a 0 = nul) \<Longrightarrow> \<forall>c \<in> set (inp p). isspace c \<Longrightarrow> session n fresh es p = None"
proof (induction n arbitrary: p)
  case (Suc n)
  let ?q = "p\<lparr>brk := brk p + 4 * 32, inp := []\<rparr>"
  have "scan_word (fresh (brk p + 3 * 32)) (p\<lparr>brk := brk p + 4 * 32\<rparr>) = Inr (fresh (brk p + 3 * 32), ?q)"
    using scan_s_spaces [OF Suc.prems(2)] by (simp add: scan_word_def)
  then have "handler fresh es p = Inr (0, ?q)" using Suc.prems(1) by (rule handler_dispatch(6))
  moreover have "session n fresh es ?q = None" using Suc.prems(1) by (intro Suc.IH) simp_all
  ultimately show ?case by simp
qed simp

text \<open>C19: the instruction loop executes a script. For the instructions of the readme that work on the
  stack, in either spelling, on a well-formed stack that does not wait, their outputs and their effects
  on the elements are those of a bounded list of pointers. If \<open>finish\<close> follows, the program ends in
  exactly the next round; if nothing follows, \<open>fscanf\<close> fails and the loop never ends, given that the
  buffers \<open>malloc\<close> hands out start with a NUL; and the readme's instructions \<open>detach_stack\<close> and
  \<open>mark_destruct\<close>, written out, overflow the buffer of ten bytes.\<close>
theorem script_is_executed:
  assumes "hnd p = Some st" and "stack_inv (kw p) st" and "wait st = -1" and "\<forall>(l, i) \<in> set is. instr_ok i"
    and "script_spec (get_size (kw p) st) (brk p) (elems (kw p) st) (map snd is) = (s, xs)"
  shows "(u \<in> {''finish'', ''f''} \<longrightarrow>
      (\<exists>p'. (\<forall>n. session n fresh es (p\<lparr>inp := script is @ u @ newline @ r\<rparr>) =
          (if n \<le> length is then None else Some (Inr (0, p')))) \<and>
        elems (kw p') st = xs \<and> stack_inv (kw p') st \<and> hnd p' = Some st \<and> inp p' = newline @ r \<and>
        out (kw p') = out (kw p) @ s @ ''test finished'' @ newline)) \<and>
    ((\<forall>a. fresh a 0 = nul) \<longrightarrow> session n fresh es (p\<lparr>inp := script is\<rparr>) = None) \<and>
    (u \<in> {''detach_stack'', ''mark_destruct''} \<longrightarrow>
      session n fresh es (p\<lparr>inp := script is @ u @ newline @ r\<rparr>) =
        (if n \<le> length is then None else Some (Inl Overflow)))"
proof -
  have run: "\<exists>p' ws'. (\<forall>n. session n fresh es (p\<lparr>inp := script is @ t\<rparr>) =
        (if n \<le> length is then None else session (n - length is) fresh es p')) \<and>
      running p' st \<and> inp p' = ws' @ t \<and> (\<forall>c \<in> set ws'. isspace c) \<and>
      elems (kw p') st = xs \<and> out (kw p') = out (kw p) @ s" for t
    using session_script [of "p\<lparr>inp := script is @ t\<rparr>" st "[]" "is" t s xs fresh es] assms
    by (simp add: running_def)
  have word: "scan_word (fresh (brk q + 3 * 32)) (q\<lparr>brk := brk q + 4 * 32\<rparr>) = (if 10 \<le> length u then Inl Overflow
      else Inr (stored_word (fresh (brk q + 3 * 32)) u, q\<lparr>brk := brk q + 4 * 32, inp := newline @ r\<rparr>))"
    if "inp q = ws @ u @ newline @ r" "\<forall>c \<in> set ws. isspace c" "u \<noteq> []" "\<forall>c \<in> set u. \<not> isspace c" for q ws
    using scan_word_word [of "q\<lparr>brk := brk q + 4 * 32\<rparr>" ws u "CHR 0x0A" r "fresh (brk q + 3 * 32)"] that
    by (simp add: newline_def)
  have fin: "\<exists>p'. (\<forall>n. session n fresh es (p\<lparr>inp := script is @ u @ newline @ r\<rparr>) =
          (if n \<le> length is then None else Some (Inr (0, p')))) \<and>
        elems (kw p') st = xs \<and> stack_inv (kw p') st \<and> hnd p' = Some st \<and> inp p' = newline @ r \<and>
        out (kw p') = out (kw p) @ s @ ''test finished'' @ newline" if "u \<in> {''finish'', ''f''}"
  proof -
    obtain q ws where q: "\<forall>n. session n fresh es (p\<lparr>inp := script is @ u @ newline @ r\<rparr>) =
        (if n \<le> length is then None else session (n - length is) fresh es q)" "running q st"
      "inp q = ws @ u @ newline @ r" "\<forall>c \<in> set ws. isspace c" "elems (kw q) st = xs" "out (kw q) = out (kw p) @ s"
      using run by blast
    let ?q = "q\<lparr>brk := brk q + 4 * 32, inp := newline @ r\<rparr>"
    have "handler fresh es q = Inr (1, ?q)"
      by (rule handler_dispatch(5) [where buf = "stored_word (fresh (brk q + 3 * 32)) u"])
        (use word [OF q(3,4)] that in \<open>auto simp: isspace_def stored_word_def\<close>)
    then have "session m fresh es q = (if m = 0 then None else Some (Inr (0, say (''test finished'' @ newline) ?q)))" for m
      by (cases m) simp_all
    then show ?thesis
      using q by (intro exI [of _ "say (''test finished'' @ newline) ?q"]) (simp add: running_def)
  qed
  have eof: "session n fresh es (p\<lparr>inp := script is\<rparr>) = None" if "\<forall>a. fresh a 0 = nul"
    using run [of "[]"] session_end_of_input [of fresh] that by auto
  have over: "session n fresh es (p\<lparr>inp := script is @ u @ newline @ r\<rparr>) =
        (if n \<le> length is then None else Some (Inl Overflow))" if "u \<in> {''detach_stack'', ''mark_destruct''}"
  proof -
    obtain q ws where q: "\<forall>n. session n fresh es (p\<lparr>inp := script is @ u @ newline @ r\<rparr>) =
        (if n \<le> length is then None else session (n - length is) fresh es q)"
      "inp q = ws @ u @ newline @ r" "\<forall>c \<in> set ws. isspace c"
      using run by blast
    have "handler fresh es q = Inl Overflow"
      using word [OF q(2,3)] that by (auto simp: handler_def isspace_def Let_def)
    then have "session m fresh es q = (if m = 0 then None else Some (Inl Overflow))" for m
      by (cases m) simp_all
    then show ?thesis using q(1) by simp
  qed
  show ?thesis using fin eof over by blast
qed

theorem script_is_executed_witness:
  "\<exists>p'. session 4 (\<lambda>a i. nul) [] \<lparr>kw = demo 1, hnd = Some (demo_st (-1)),
      inp = ''pu hi'' @ newline @ ''pop'' @ newline @ ''get_c'' @ newline @ ''finish'' @ newline, brk = 64\<rparr> =
        Some (Inr (0, p')) \<and>
    elems (kw p') (demo_st (-1)) = [100] \<and>
    out (kw p') = ''pushed '' @ show_ptr 192 @ '' hi'' @ newline @ ''popped '' @ show_ptr 192 @ newline @
      ''count is '' @ show_int 1 @ newline @ ''test finished'' @ newline"
proof -
  let ?p = "\<lparr>kw = demo 1, hnd = Some (demo_st (-1)), inp = [], brk = 64\<rparr>"
  let ?is = "[(False, I_push ''hi''), (True, I_pop), (False, I_count)]"
  have "script_spec (get_size (kw ?p) (demo_st (-1))) (brk ?p) (elems (kw ?p) (demo_st (-1))) (map snd ?is) =
      (''pushed '' @ show_ptr 192 @ '' hi'' @ newline @ ''popped '' @ show_ptr 192 @ newline @
       ''count is '' @ show_int 1 @ newline, [100])"
    by (simp add: demo_reads)
  note s = script_is_executed [OF _ _ _ _ this, where fresh = "\<lambda>a i. nul" and u = "''finish''" and r = "[]" and es = "[]"]
  have "\<forall>(l, i) \<in> set ?is. instr_ok i" by (simp add: word_ok_def isspace_def)
  from s [OF _ _ _ this] demo_inv [of 1 "-1"] obtain p' where
    p': "\<forall>n. session n (\<lambda>a i. nul) [] (?p\<lparr>inp := script ?is @ ''finish'' @ newline @ []\<rparr>) =
        (if n \<le> length ?is then None else Some (Inr (0, p')))" "elems (kw p') (demo_st (-1)) = [100]"
      "out (kw p') = out (kw ?p) @ (''pushed '' @ show_ptr 192 @ '' hi'' @ newline @ ''popped '' @ show_ptr 192 @ newline @
       ''count is '' @ show_int 1 @ newline) @ ''test finished'' @ newline"
    by auto
  have "script ?is @ ''finish'' @ newline @ [] =
      ''pu hi'' @ newline @ ''pop'' @ newline @ ''get_c'' @ newline @ ''finish'' @ newline"
    by (simp add: script_def newline_def)
  moreover have "out (demo 1) = []" by (simp add: demo_def)
  ultimately show ?thesis using spec [OF p'(1), of 4] p'(2,3) by (intro exI [of _ p']) simp
qed

text \<open>\<open>detach\<close> keeps the loop running on a freed handle: after it the next \<open>pop\<close> or \<open>print\<close>
  instruction is a use after free.\<close>
theorem detached_handle_is_used:
  assumes "scan_s (inp p) = (Some (CHR ''d'' # u), t)" and "length u < 9" and "hnd p = Some st"
    and "scan_s t = (Some (CHR ''p'' # x # y), t')" and "x = CHR ''o'' \<or> x = CHR ''r''" and "length y < 8"
  shows "\<exists>p1. handler fresh es p = Inr (0, p1) \<and> hnd p1 = None \<and> handler fresh es' p1 = Inl Use_after_free"
  using assms
  by (auto simp: handler_def scan_word_def Let_def with_stack_def do_pop_def)

theorem detached_handle_is_used_witness:
  "\<exists>p1. handler (\<lambda>a i. nul) [] \<lparr>kw = demo 2, hnd = Some (demo_st 0), inp = ''d pop f'', brk = 64\<rparr> = Inr (0, p1) \<and>
    handler (\<lambda>a i. nul) [] p1 = Inl Use_after_free"
  using detached_handle_is_used [of "\<lparr>kw = demo 2, hnd = Some (demo_st 0), inp = ''d pop f'', brk = 64\<rparr>"
      "[]" "'' pop f''" "demo_st 0" "CHR ''o''" "''p''" "'' f''" "\<lambda>a i. nul" "[]" "[]"]
  by (auto simp: scan_s_def isspace_def)

subsection \<open>The stress test\<close>

text \<open>
  \<open>test.c\<close> as one of its processes runs it after the forks, \<open>key\<close> as \<open>ftok\<close> returns it:
  ten pushes and ten pops of the same pointer, return codes ignored; the first process then
  pushes and pops twice more, prints and destroys the stack, the others detach. The forks, \<open>setgid\<close>,
  \<open>sleep\<close> and \<open>killpg\<close> concern the other processes only.
\<close>

fun push_times :: "nat \<Rightarrow> world \<Rightarrow> stack_t \<Rightarrow> voidp \<Rightarrow> world res" where
  "push_times 0 w st v = Inr w"
| "push_times (Suc n) w st v = rbind (push [] w st v) (\<lambda>(r, w). push_times n w st v)"

fun pop_times :: "nat \<Rightarrow> world \<Rightarrow> stack_t \<Rightarrow> world res" where
  "pop_times 0 w st = Inr w"
| "pop_times (Suc n) w st = rbind (pop [] w st) (\<lambda>(r, v, w). pop_times n w st)"

definition test_main :: "int \<Rightarrow> bool \<Rightarrow> voidp \<Rightarrow> world \<Rightarrow> world res" where
  "test_main key first zz w =
     (case attach_stack w key ((2 * 2 ^ 9) * 8) of
        (None, w) \<Rightarrow> Inl Null_deref
      | (Some st, w) \<Rightarrow>
          rbind (push_times 10 w st zz) (\<lambda>w.
          rbind (pop_times 10 w st) (\<lambda>w.
            if first then
              rbind (push_times 2 w st zz) (\<lambda>w.
              rbind (pop_times 2 w st) (\<lambda>w.
              rbind (print_all [] w st) (\<lambda>(r, w).
              Inr (snd (mark_destruct w st)))))
            else Inr (snd (detach_stack w st)))))"

text \<open>What a push or pop leaves alone: the output, the keys and the segment's bookkeeping.\<close>

definition same_frame :: "world \<Rightarrow> seg \<Rightarrow> world \<Rightarrow> seg \<Rightarrow> bool" where
  "same_frame w sg w' sg' \<longleftrightarrow> out w' = out w \<and> shm_key w' = shm_key w \<and> sem_key w' = sem_key w \<and>
     seg_size sg' = seg_size sg \<and> seg_nattch sg' = seg_nattch sg \<and> seg_dest sg' = seg_dest sg"

lemma push_times_run:
  "stack_at w st n cap cnt sg \<Longrightarrow> cnt + int k \<le> cap \<Longrightarrow> 8 * (cnt + int k) \<le> mapped (seg_size sg) \<Longrightarrow>
     \<exists>w' sg'. push_times k w st v = Inr w' \<and> stack_at w' st n cap (cnt + int k) sg' \<and>
       same_frame w sg w' sg'"
proof (induction k arbitrary: w cnt sg)
  case 0
  then show ?case by (auto simp: same_frame_def)
next
  case (Suc k)
  let ?w = "pushed w st n cap cnt sg v" let ?sg = "sg\<lparr>seg_mem := (seg_mem sg)(nat cnt := v)\<rparr>"
  have r: "push [] w st v = Inr (0, ?w)" "stack_at ?w st n cap (cnt + 1) ?sg"
    using push_run [OF Suc.prems(1)] pushed_at [OF Suc.prems(1)] Suc.prems(2,3) by simp_all
  obtain w' sg' where "push_times k ?w st v = Inr w'" "stack_at w' st n cap (cnt + 1 + int k) sg'"
    "same_frame ?w ?sg w' sg'"
    using Suc.IH [OF r(2)] Suc.prems(2,3) by auto
  then show ?case using r(1) by (auto simp: same_frame_def pushed_def algebra_simps)
qed

lemma pop_times_run:
  "stack_at w st n cap (cnt + int k) sg \<Longrightarrow> 0 \<le> cnt \<Longrightarrow>
     \<exists>w'. pop_times k w st = Inr w' \<and> stack_at w' st n cap cnt sg \<and> same_frame w sg w' sg"
proof (induction k arbitrary: w)
  case 0
  then show ?case by (auto simp: same_frame_def)
next
  case (Suc k)
  let ?w = "popped w st cap (cnt + int (Suc k))"
  have r: "\<exists>v. pop [] w st = Inr (0, v, ?w)" "stack_at ?w st n cap (cnt + int k) sg"
    using pop_run [OF Suc.prems(1)] popped_at [OF Suc.prems(1)] Suc.prems(2) by auto
  obtain w' where "pop_times k ?w st = Inr w'" "stack_at w' st n cap cnt sg" "same_frame ?w sg w' sg"
    using Suc.IH [OF r(2) Suc.prems(2)] by auto
  then show ?case using r(1) by (auto simp: same_frame_def popped_def)
qed

lemma push_pop_times:
  assumes "stack_at w st n cap cnt sg" "cnt + int k \<le> cap" "8 * (cnt + int k) \<le> mapped (seg_size sg)"
  obtains w1 w2 sg' where "push_times k w st v = Inr w1" "pop_times k w1 st = Inr w2"
    "stack_at w2 st n cap cnt sg'" "same_frame w sg w2 sg'"
proof -
  obtain w1 sg1 where 1: "push_times k w st v = Inr w1" "stack_at w1 st n cap (cnt + int k) sg1"
    "same_frame w sg w1 sg1"
    using push_times_run [OF assms] by blast
  obtain w2 where 2: "pop_times k w1 st = Inr w2" "stack_at w2 st n cap cnt sg1" "same_frame w1 sg1 w2 sg1"
    using pop_times_run [OF 1(2)] stack_at_cnt [OF assms(1)] by blast
  then show ?thesis using 1 that by (simp add: same_frame_def)
qed

lemma print_all_empty:
  assumes "stack_at w st n cap 0 sg"
  shows "\<exists>r w'. print_all [] w st = Inr (r, w') \<and> stack_at w' st n cap 0 sg \<and>
    out w' = out w @ ''size is '' @ show_int cap @ '', count is 0, stack is {}'' @ newline \<and>
    shm_key w' = shm_key w \<and> sem_key w' = sem_key w"
  using assms
  by (simp add: print_all_def stack_at_def semctl_getval_def semop_def SEMVMX_def print_slots.simps
      show_int_def show_nat.simps newline_def)

lemma mark_destruct_last:
  assumes "stack_at w st (id_key st) cap cnt sg" "seg_nattch sg = 1" "\<not> seg_dest sg"
    and "shm_key w key = Some (id_key st)" "sem_key w key = Some (sem st)"
  shows "\<exists>w'. mark_destruct w st = (0, w') \<and> shm_key w' key = None \<and> sem_key w' key = None \<and>
    shm_seg w' (id_key st) = None \<and>
    out w' = out w @ ''stack with return 0 have been destructed'' @ newline"
  using assms
  by (simp add: mark_destruct_def stack_at_def shmdt_def shmctl_rmid_def semctl_rmid_def
      show_int_def show_nat.simps newline_def Let_def)

text \<open>The stress test succeeds when its first process runs alone: started without a stack, it
  prints the empty stack its readme announces, destroys it and leaves nothing behind under the
  key.\<close>
theorem stress_test_prints_empty:
  assumes "shm_key w key = None" and "sem_key w key = None" and "0 < next_id w"
  shows "\<exists>w'. test_main key True zz w = Inr w' \<and> shm_key w' key = None \<and> sem_key w' key = None \<and>
    out w' = out w @ ''size is 8192, count is 0, stack is {}'' @ newline @
      ''stack with return 0 have been destructed'' @ newline"
proof -
  let ?sg = "\<lparr>seg_size = 8192, seg_mem = (\<lambda>_. 0), seg_nattch = 1, seg_dest = False\<rparr>"
  have m: "mapped 8192 = 8192" by (simp add: mapped_def page_size_def)
  obtain st w0 where 0: "attach_stack w key 8192 = (Some st, w0)"
    "stack_at w0 st (id_key st) 8192 0 ?sg" "out w0 = out w"
    "shm_key w0 key = Some (id_key st)" "sem_key w0 key = Some (sem st)"
    using assms m that [of "\<lparr>id_key = next_id w, wait = -1, sem = next_id w + 1,
      sh_stack = Some (next_id w), tv_sec = 0, tv_nsec = 0\<rparr>"]
    by (simp add: attach_stack_def shmget_def semget_def semctl_setval_def shmat_def numeral_3_eq_3
        SEMVMX_def stack_at_def)
  obtain w1 w2 s2 where 1: "push_times 10 w0 st zz = Inr w1" "pop_times 10 w1 st = Inr w2"
    "stack_at w2 st (id_key st) 8192 0 s2" "same_frame w0 ?sg w2 s2"
    by (rule push_pop_times [OF 0(2), of 10 zz]) (use m in auto)
  obtain w3 w4 s4 where 2: "push_times 2 w2 st zz = Inr w3" "pop_times 2 w3 st = Inr w4"
    "stack_at w4 st (id_key st) 8192 0 s4" "same_frame w2 s2 w4 s4"
    by (rule push_pop_times [OF 1(3), of 2 zz]) (use m 1(4) in \<open>auto simp: same_frame_def\<close>)
  obtain r w5 where 3: "print_all [] w4 st = Inr (r, w5)" "stack_at w5 st (id_key st) 8192 0 s4"
    "out w5 = out w4 @ ''size is '' @ show_int 8192 @ '', count is 0, stack is {}'' @ newline"
    "shm_key w5 = shm_key w4" "sem_key w5 = sem_key w4"
    using print_all_empty [OF 2(3)] by blast
  obtain w6 where 4: "mark_destruct w5 st = (0, w6)" "shm_key w6 key = None" "sem_key w6 key = None"
    "out w6 = out w5 @ ''stack with return 0 have been destructed'' @ newline"
    using mark_destruct_last [OF 3(2), of key] 0 1(4) 2(4) 3(4,5) by (auto simp: same_frame_def)
  have "test_main key True zz w = Inr w6"
    using 0(1) 1(1,2) 2(1,2) 3(1) 4(1) by (simp add: test_main_def)
  then show ?thesis
    using 4 3(3) 2(4) 1(4) 0(3) by (simp add: same_frame_def show_int_def show_nat.simps)
qed

theorem stress_test_prints_empty_witness:
  "\<exists>w'. test_main 7 True 9 no_objects = Inr w' \<and>
    out w' = ''size is 8192, count is 0, stack is {}'' @ newline @
      ''stack with return 0 have been destructed'' @ newline"
  using stress_test_prints_empty [of no_objects 7 9] by (auto simp: no_objects_def)

end
