(* ===== verification/ListSpec.thy ===== *)
theory ListSpec
  imports Prelude
begin

section \<open>The contract of an intrusive list\<close>

text \<open>
  What the users of the doubly linked lists rely on: \<open>holds h l xs\<close> says that in heap \<open>h\<close>
  the list with head \<open>l\<close> contains the nodes \<open>xs\<close> in this order; adding a node that is not
  in the list puts it at the front or at the back, deleting a node takes out just that one,
  and walking the list visits its nodes in order.
\<close>

locale intrusive_list =
  fixes holds :: "'h \<Rightarrow> 'a \<Rightarrow> 'a list \<Rightarrow> bool"
    and init :: "'h \<Rightarrow> 'a \<Rightarrow> 'h"
    and add :: "'h \<Rightarrow> 'a \<Rightarrow> 'a \<Rightarrow> 'h"
    and add_back :: "'h \<Rightarrow> 'a \<Rightarrow> 'a \<Rightarrow> 'h"
    and del :: "'h \<Rightarrow> 'a \<Rightarrow> 'h"
    and succ :: "'h \<Rightarrow> 'a \<Rightarrow> 'a"
  assumes holds_init: "holds (init h l) l []"
    and holds_add: "holds h l xs \<Longrightarrow> x \<notin> set (l # xs) \<Longrightarrow> holds (add h x l) l (x # xs)"
    and holds_add_back: "holds h l xs \<Longrightarrow> x \<notin> set (l # xs) \<Longrightarrow> holds (add_back h x l) l (xs @ [x])"
    and holds_del: "holds h l (xs @ x # ys) \<Longrightarrow> holds (del h x) l (xs @ ys)"
    and holds_distinct: "holds h l xs \<Longrightarrow> distinct (l # xs)"
    and holds_succ: "holds h l (xs @ ys) \<Longrightarrow> succ h (last (l # xs)) = hd (ys @ [l])"
begin

text \<open>Adding several nodes at the front leaves them in reverse order before the old ones.\<close>

lemma holds_add_all:
  "holds h l ys \<Longrightarrow> distinct xs \<Longrightarrow> set xs \<inter> set (l # ys) = {} \<Longrightarrow>
     holds (fold (\<lambda>x h. add h x l) xs h) l (rev xs @ ys)"
proof (induction xs arbitrary: h ys)
  case Nil
  then show ?case by simp
next
  case (Cons x xs)
  then have "holds (add h x l) l (x # ys)" by (intro holds_add) auto
  then have "holds (fold (\<lambda>x h. add h x l) xs (add h x l)) l (rev xs @ x # ys)"
    using Cons.prems by (intro Cons.IH) auto
  then show ?case by simp
qed

lemma holds_add_back_all:
  "holds h l ys \<Longrightarrow> distinct xs \<Longrightarrow> set xs \<inter> set (l # ys) = {} \<Longrightarrow>
     holds (fold (\<lambda>x h. add_back h x l) xs h) l (ys @ xs)"
proof (induction xs arbitrary: h ys)
  case Nil
  then show ?case by simp
next
  case (Cons x xs)
  then have "holds (add_back h x l) l (ys @ [x])" by (intro holds_add_back) auto
  then have "holds (fold (\<lambda>x h. add_back h x l) xs (add_back h x l)) l ((ys @ [x]) @ xs)"
    using Cons.prems by (intro Cons.IH) auto
  then show ?case by simp
qed

text \<open>A list used as a queue: what was added at the back first is deleted first.\<close>

lemma holds_fifo:
  assumes "holds h l (y # ys)" "x \<notin> set (l # y # ys)"
  shows "holds (del (add_back h x l) y) l (ys @ [x])"
  using holds_del [of "add_back h x l" l "[]" y "ys @ [x]"] holds_add_back [OF assms] by simp

text \<open>Adding a node and deleting it again gives the list back.\<close>

lemma holds_add_del:
  assumes "holds h l xs" "x \<notin> set (l # xs)"
  shows "holds (del (add h x l) x) l xs"
  using holds_del [of "add h x l" l "[]" x xs] holds_add [OF assms] by simp

end

end
