(* ===== verification/DList.thy ===== *)
theory DList
  imports ListSpec
begin

section \<open>Doubly linked lists: \<open>list/main.c\<close> and \<open>modules/field.h\<close>\<close>

text \<open>
  Both files define the same intrusive circular list. A node is an address; the heap gives
  its two fields. Every function is the sequence of its assignments, each reading the heap
  the one before has left, so aliased arguments behave as in the code.
\<close>

type_synonym addr = int

record heap =
  nxt :: "addr \<Rightarrow> addr"
  prv :: "addr \<Rightarrow> addr"

definition set_nxt :: "addr \<Rightarrow> addr \<Rightarrow> heap \<Rightarrow> heap" where
  "set_nxt a v h = h\<lparr>nxt := (nxt h)(a := v)\<rparr>"

definition set_prv :: "addr \<Rightarrow> addr \<Rightarrow> heap \<Rightarrow> heap" where
  "set_prv a v h = h\<lparr>prv := (prv h)(a := v)\<rparr>"

definition list_add_between :: "heap \<Rightarrow> addr \<Rightarrow> addr \<Rightarrow> addr \<Rightarrow> heap" where
  "list_add_between h item p n =
     (let h = set_nxt p item h;
          h = set_prv n item h;
          h = set_prv item p h;
          h = set_nxt item n h
      in h)"

definition list_init :: "heap \<Rightarrow> addr \<Rightarrow> heap" where
  "list_init h l = set_nxt l l (set_prv l l h)"

definition list_add :: "heap \<Rightarrow> addr \<Rightarrow> addr \<Rightarrow> heap" where
  "list_add h new head = list_add_between h new head (nxt h head)"

definition list_add_back :: "heap \<Rightarrow> addr \<Rightarrow> addr \<Rightarrow> heap" where
  "list_add_back h new head = list_add_between h new (prv h head) head"

definition list_del :: "heap \<Rightarrow> addr \<Rightarrow> heap" where
  "list_del h old =
     (let h = set_nxt (prv h old) (nxt h old) h;
          h = set_prv (nxt h old) (prv h old) h
      in h)"

subsection \<open>The ring of nodes\<close>

text \<open>
  \<open>links h as\<close>: consecutive elements point to each other. \<open>ring h l xs\<close>: from the head
  \<open>l\<close> through \<open>xs\<close> and back, all nodes different.
\<close>

fun links :: "heap \<Rightarrow> addr list \<Rightarrow> bool" where
  "links h [] = True"
| "links h [a] = True"
| "links h (a # b # as) = (nxt h a = b \<and> prv h b = a \<and> links h (b # as))"

definition ring :: "heap \<Rightarrow> addr \<Rightarrow> addr list \<Rightarrow> bool" where
  "ring h l xs \<longleftrightarrow> distinct (l # xs) \<and> links h (l # xs @ [l])"

lemma fields_set [simp]:
  "nxt (set_nxt a v h) = (nxt h)(a := v)" "prv (set_nxt a v h) = prv h"
  "prv (set_prv a v h) = (prv h)(a := v)" "nxt (set_prv a v h) = nxt h"
  by (simp_all add: set_nxt_def set_prv_def)

lemma links_append:
  "as \<noteq> [] \<Longrightarrow> bs \<noteq> [] \<Longrightarrow>
     links h (as @ bs) \<longleftrightarrow>
     links h as \<and> nxt h (last as) = hd bs \<and> prv h (hd bs) = last as \<and> links h bs"
proof (induction h as rule: links.induct)
  case (2 h a)
  then show ?case by (cases bs) auto
qed auto

lemma last_notin_butlast: "distinct as \<Longrightarrow> as \<noteq> [] \<Longrightarrow> last as \<notin> set (butlast as)"
  by (induction as) (auto dest: in_set_butlastD)

lemma links_set_nxt: "a \<notin> set (butlast as) \<Longrightarrow> links (set_nxt a v h) as = links h as"
  by (induction h as rule: links.induct) auto

lemma links_set_prv: "a \<notin> set (tl as) \<Longrightarrow> links (set_prv a v h) as = links h as"
  by (induction h as rule: links.induct) auto

text \<open>Inserting between two neighbours, wherever they are in the ring.\<close>

lemma links_insert:
  assumes "links h (as @ bs)" "as \<noteq> []" "bs \<noteq> []" "x \<notin> set as" "x \<notin> set bs"
    and "last as \<notin> set (butlast as)" "last as \<notin> set (butlast bs)"
    and "hd bs \<notin> set (tl as)" "hd bs \<notin> set (tl bs)"
  shows "links (list_add_between h x (last as) (hd bs)) (as @ x # bs)"
proof -
  let ?h = "list_add_between h x (last as) (hd bs)"
  have x: "x \<notin> set (butlast as)" "x \<notin> set (butlast bs)" "x \<notin> set (tl as)" "x \<notin> set (tl bs)"
    using assms(2-5) by (auto dest: in_set_butlastD list.set_sel(2))
  have "links h as" "links h bs"
    using assms(1-3) by (simp_all add: links_append)
  then have "links ?h as" "links ?h bs"
    using assms(6-9) x by (simp_all add: list_add_between_def links_set_nxt links_set_prv)
  moreover have "nxt ?h (last as) = x" "prv ?h x = last as" "nxt ?h x = hd bs" "prv ?h (hd bs) = x"
    using assms by (auto simp: list_add_between_def)
  moreover have "links ?h (x # bs) \<longleftrightarrow> links ?h [x] \<and> nxt ?h (last [x]) = hd bs \<and>
      prv ?h (hd bs) = last [x] \<and> links ?h bs"
    using links_append [of "[x]" bs ?h] assms(3) by simp
  ultimately show ?thesis
    using links_append [of as "x # bs" ?h] assms(2) by simp
qed

lemma ring_insert:
  assumes "ring h l (xs @ ys)" "x \<notin> set (l # xs @ ys)"
  shows "ring (list_add_between h x (last (l # xs)) (hd (ys @ [l]))) l (xs @ x # ys)"
proof -
  have d: "distinct (l # xs @ ys)" and k: "links h ((l # xs) @ (ys @ [l]))"
    using assms(1) by (simp_all add: ring_def)
  have "last (l # xs) \<in> set (l # xs)" by (rule last_in_set) simp
  then have "last (l # xs) \<notin> set ys" using d by auto
  moreover have "last (l # xs) \<notin> set (butlast (l # xs))"
    using d by (intro last_notin_butlast) simp_all
  moreover have "hd (ys @ [l]) \<notin> set xs" "hd (ys @ [l]) \<notin> set (tl (ys @ [l]))"
    using d by (cases ys; auto)+
  ultimately have "links (list_add_between h x (last (l # xs)) (hd (ys @ [l]))) ((l # xs) @ x # (ys @ [l]))"
    using assms(2) by (intro links_insert [OF k]) auto
  then show ?thesis using d assms(2) by (auto simp: ring_def)
qed

lemma ring_nxt: "ring h l (xs @ ys) \<Longrightarrow> nxt h (last (l # xs)) = hd (ys @ [l])"
  using links_append [of "l # xs" "ys @ [l]" h] by (simp add: ring_def)

lemma ring_prv: "ring h l (xs @ ys) \<Longrightarrow> prv h (hd (ys @ [l])) = last (l # xs)"
  using links_append [of "l # xs" "ys @ [l]" h] by (simp add: ring_def)

lemma ring_add: "ring h l xs \<Longrightarrow> x \<notin> set (l # xs) \<Longrightarrow> ring (list_add h x l) l (x # xs)"
  using ring_insert [of h l "[]" xs x] ring_nxt [of h l "[]" xs] by (simp add: list_add_def)

lemma ring_add_back: "ring h l xs \<Longrightarrow> x \<notin> set (l # xs) \<Longrightarrow> ring (list_add_back h x l) l (xs @ [x])"
  using ring_insert [of h l xs "[]" x] ring_prv [of h l xs "[]"] by (simp add: list_add_back_def)

lemma ring_del:
  assumes "ring h l (xs @ x # ys)"
  shows "ring (list_del h x) l (xs @ ys)"
proof -
  let ?p = "last (l # xs)" let ?n = "hd (ys @ [l])"
  have d: "distinct (l # xs @ x # ys)" using assms by (simp add: ring_def)
  have k: "links h ((l # xs) @ x # (ys @ [l]))" using assms by (simp add: ring_def)
  have p: "prv h x = ?p" using ring_prv [OF assms] by simp
  have n: "nxt h x = ?n" using ring_nxt [of h l "xs @ [x]" ys] assms by simp
  have "?p \<in> set (l # xs)" by (rule last_in_set) simp
  then have px: "?p \<noteq> x" "?p \<notin> set ys" using d by auto
  have pb: "?p \<notin> set (butlast (l # xs))"
    using d by (intro last_notin_butlast) simp_all
  have nx: "?n \<notin> set xs" "?n \<notin> set (tl (ys @ [l]))" using d by (cases ys; auto)+
  have e: "list_del h x = set_prv ?n ?p (set_nxt ?p ?n h)"
    using p n px by (simp add: list_del_def)
  have "links h (l # xs)" "links h (ys @ [l])"
    using links_append [of "l # xs" "x # (ys @ [l])" h] links_append [of "[x]" "ys @ [l]" h] k by auto
  then have "links (list_del h x) (l # xs)" "links (list_del h x) (ys @ [l])"
    unfolding e using px pb nx by (simp_all add: links_set_nxt links_set_prv)
  then have "links (list_del h x) ((l # xs) @ (ys @ [l]))"
    unfolding e using links_append [of "l # xs" "ys @ [l]"] by simp
  then show ?thesis using d by (simp add: ring_def)
qed

lemma ring_init: "ring (list_init h l) l []"
  by (simp add: ring_def list_init_def)

interpretation dl: intrusive_list ring list_init list_add list_add_back list_del nxt
proof (unfold_locales, goal_cases)
  case 1 show ?case by (rule ring_init)
next
  case 2 then show ?case by (rule ring_add)
next
  case 3 then show ?case by (rule ring_add_back)
next
  case 4 then show ?case by (rule ring_del)
next
  case 5 then show ?case by (simp add: ring_def)
next
  case 6 then show ?case by (rule ring_nxt)
qed


text \<open>Every node of a ring can serve as its head.\<close>

lemma ring_rotate:
  assumes "ring h l (xs @ x # ys)"
  shows "ring h x (ys @ l # xs)"
proof -
  have "links h ((l # xs) @ (x # ys @ [l]))" using assms by (simp add: ring_def)
  then have "links h (l # xs)" "nxt h (last (l # xs)) = x" "prv h x = last (l # xs)"
    "links h ((x # ys) @ [l])"
    using links_append [of "l # xs" "x # ys @ [l]" h] by simp_all
  then have "links h (x # ys)" "nxt h (last (x # ys)) = l" "prv h l = last (x # ys)" "links h [l]"
    "links h ((l # xs) @ [x])"
    using links_append [of "x # ys" "[l]" h] links_append [of "l # xs" "[x]" h] by simp_all
  then have "links h ((x # ys) @ ((l # xs) @ [x]))"
    using links_append [of "x # ys" "(l # xs) @ [x]" h] by simp
  then show ?thesis using assms by (auto simp: ring_def)
qed

subsection \<open>Walking a list\<close>

text \<open>
  The loop of \<open>list_for_each_entry\<close>: the nodes it visits from \<open>pos\<close> until it is back at
  \<open>head\<close>. The loop may never get there, so it is a partial function and \<open>None\<close> means that it
  does not end.
\<close>

partial_function (option) visit :: "heap \<Rightarrow> addr \<Rightarrow> addr \<Rightarrow> addr list option" where
  "visit h head pos =
     (if pos = head then Some []
      else Option.bind (visit h head (nxt h pos)) (\<lambda>ps. Some (pos # ps)))"

definition list_for_each :: "heap \<Rightarrow> addr \<Rightarrow> addr list option" where
  "list_for_each h head = visit h head (nxt h head)"

lemma visit_ring:
  "ring h l (xs @ ys) \<Longrightarrow> visit h l (hd (ys @ [l])) = Some ys"
proof (induction ys arbitrary: xs)
  case Nil
  then show ?case by (simp add: visit.simps)
next
  case (Cons y ys)
  have "y \<noteq> l" using Cons.prems by (auto simp: ring_def)
  moreover have "nxt h y = hd (ys @ [l])"
    using ring_nxt [of h l "xs @ [y]" ys] Cons.prems by simp
  moreover have "visit h l (hd (ys @ [l])) = Some ys"
    using Cons.IH [of "xs @ [y]"] Cons.prems by simp
  ultimately show ?case by (simp add: visit.simps)
qed

lemma list_for_each_ring: "ring h l xs \<Longrightarrow> list_for_each h l = Some xs"
  using visit_ring [of h l "[]" xs] ring_nxt [of h l "[]" xs] by (simp add: list_for_each_def)

text \<open>A walk that ends reaches its head after finitely many \<open>next\<close> steps.\<close>

lemma visit_ends:
  "visit h head pos = Some ps \<Longrightarrow> (nxt h ^^ length ps) pos = head"
proof (induction ps arbitrary: pos)
  case Nil
  then show ?case by (subst (asm) visit.simps) (auto split: if_splits bind_splits)
next
  case (Cons p ps)
  then have "pos \<noteq> head" "visit h head (nxt h pos) = Some ps"
    by (subst (asm) (2) visit.simps; auto split: if_splits bind_splits)+
  then show ?case using Cons.IH by (simp add: funpow_swap1)
qed

text \<open>Nodes closed under \<open>next\<close> that leave out the head: a walk that enters them never ends.\<close>

lemma visit_trapped:
  assumes "pos \<in> A" "head \<notin> A" "\<And>a. a \<in> A \<Longrightarrow> nxt h a \<in> A"
  shows "visit h head pos = None"
proof (cases "visit h head pos")
  case (Some ps)
  have "(nxt h ^^ n) pos \<in> A" for n
    by (induction n) (use assms in auto)
  then show ?thesis using visit_ends [OF Some] assms(2) by metis
qed simp

subsection \<open>The program \<open>list/main.c\<close>\<close>

text \<open>
  \<open>main\<close> on the addresses of its local variables, from any contents of the stack. It prints
  the addresses of \<open>it3\<close>, \<open>it2\<close>, \<open>it1\<close> and of the first field of \<open>l\<close>.
\<close>

definition main_list :: "heap \<Rightarrow> addr \<Rightarrow> addr \<Rightarrow> addr \<Rightarrow> addr \<Rightarrow> heap \<times> addr list" where
  "main_list h l it1 it2 it3 =
     (let h = list_init h l;
          h = list_add h it1 l;
          h = list_add h it2 l;
          h = list_del h l;
          h = list_add h it3 l
      in (h, [it3, it2, it1, l]))"

text \<open>Deleting the head leaves the other nodes as a ring without it.\<close>

lemma del_head:
  assumes "ring h l (x # xs)"
  shows "ring (list_del h l) x xs"
  using dl.holds_del [of h x xs l "[]"] ring_rotate [of h l "[]" x xs] assms by simp

subsection \<open>Properties\<close>

text \<open>C3: nodes added one after the other at the front, and then others at the back, are
  visited by \<open>list_for_each_entry\<close> in reverse order of the first and in order of the
  others, and the walk ends.\<close>
theorem list_keeps_order:
  assumes "distinct (l # xs @ ys)"
  shows "list_for_each (fold (\<lambda>y h. list_add_back h y l) ys
           (fold (\<lambda>x h. list_add h x l) xs (list_init h l))) l = Some (rev xs @ ys)"
proof -
  have "ring (fold (\<lambda>x h. list_add h x l) xs (list_init h l)) l (rev xs @ [])"
    using assms by (intro dl.holds_add_all dl.holds_init) auto
  then have "ring (fold (\<lambda>y h. list_add_back h y l) ys
      (fold (\<lambda>x h. list_add h x l) xs (list_init h l))) l (rev xs @ ys)"
    using assms by (intro dl.holds_add_back_all) auto
  then show ?thesis by (rule list_for_each_ring)
qed

definition no_heap :: heap where
  "no_heap = \<lparr>nxt = (\<lambda>_. 0), prv = (\<lambda>_. 0)\<rparr>"

theorem list_keeps_order_witness:
  "list_for_each (list_add_back (list_add (list_add (list_init no_heap 1) 2 1) 3 1) 4 1) 1 = Some [3, 2, 4]"
  using list_keeps_order [of 1 "[2, 3]" "[4]" no_heap] by simp

text \<open>C20: \<open>list_del\<close> takes out exactly the node it is given, wherever it is, and a list whose
  nodes are added at the back and deleted from the front is a queue.\<close>
theorem list_del_takes_one:
  assumes "ring h l (xs @ x # ys)" "z \<notin> set (l # xs @ x # ys)"
  shows "list_for_each (list_del h x) l = Some (xs @ ys) \<and>
         list_for_each (list_del (list_add_back h z l) (hd (xs @ x # ys))) l = Some (tl (xs @ x # ys) @ [z])"
proof -
  obtain v vs where v: "xs @ x # ys = v # vs" by (cases "xs @ x # ys") auto
  have "ring (list_del (list_add_back h z l) v) l (vs @ [z])"
    using assms v by (intro dl.holds_fifo) auto
  then show ?thesis
    using list_for_each_ring [OF dl.holds_del [OF assms(1)]] list_for_each_ring v by simp
qed

theorem list_del_takes_one_witness:
  "list_for_each (list_del (list_add (list_init no_heap 1) 2 1) 2) 1 = Some []"
  using list_del_takes_one [of "list_add (list_init no_heap 1) 2 1" 1 "[]" 2 "[]" 3]
    dl.holds_add [OF dl.holds_init, of 2 1 no_heap] by simp

text \<open>C21: \<open>main\<close> of \<open>list/main.c\<close> deletes the head itself, so afterwards the list is no ring
  any more: a walk with \<open>list_for_each\<close> from \<open>l\<close> visits \<open>it3\<close>, \<open>it2\<close>, \<open>it1\<close>, \<open>it2\<close> and never
  comes back to \<open>l\<close>, while walking backwards from \<open>l\<close> still misses \<open>it3\<close>.\<close>
theorem main_list_walk_endless:
  assumes "distinct [l, it1, it2, it3]" and h': "h' = fst (main_list h l it1 it2 it3)"
  shows "list_for_each h' l = None \<and> map (\<lambda>n. (nxt h' ^^ n) l) [1..<5] = [it3, it2, it1, it2] \<and>
         prv h' l = it1 \<and> (\<forall>xs. \<not> ring h' l xs)"
proof -
  have f: "nxt h' l = it3" "nxt h' it3 = it2" "nxt h' it2 = it1" "nxt h' it1 = it2" "prv h' l = it1"
    unfolding h' main_list_def list_init_def list_add_def list_del_def list_add_between_def Let_def
    using assms(1) by auto
  have "visit h' l it3 = None"
    by (rule visit_trapped [where A = "{it1, it2, it3}"]) (use assms(1) f in auto)
  then have w: "list_for_each h' l = None" by (simp add: list_for_each_def f)
  moreover have "\<not> ring h' l xs" for xs using list_for_each_ring [of h' l xs] w by auto
  moreover have "map (\<lambda>n. (nxt h' ^^ n) l) [1..<5] = [it3, it2, it1, it2]"
    by (simp add: f upt_rec numeral_eq_Suc)
  ultimately show ?thesis using f by blast
qed

theorem main_list_walk_endless_witness:
  "list_for_each (fst (main_list no_heap 100 116 132 148)) 100 = None"
  using main_list_walk_endless [OF _ refl, of 100 116 132 148 no_heap] by simp

end
