(* ===== verification/Field.thy ===== *)
theory Field
  imports DList "HOL-Library.Signed_Division"
begin

section \<open>Loadable fields: \<open>modules/\<close>\<close>

text \<open>
  \<open>libflib.so\<close> (\<open>field.c\<close>) keeps a list of the fields the modules register when they are
  loaded; \<open>m16.so\<close> registers the addition modulo 16, \<open>mn.so\<close> a generic one that takes the
  modulus the first request for an unknown field asks for. The library is built without
  optimisation, where \<open>int\<close> addition wraps.
\<close>

type_synonym int32 = "32 word"

text \<open>The two functions a \<open>sum\<close> pointer can hold.\<close>

datatype sumfn = Sum16 | SumN

text \<open>
  The memory of the process: the \<open>struct list\<close> members, the members \<open>m\<close> and \<open>sum\<close> of every
  \<open>struct field\<close>, the places of the static objects \<open>fields\<close>, \<open>m16\<close> and \<open>mn\<close>, and the
  addresses printed so far.
\<close>

record modules =
  hp :: heap
  fld_m :: "addr \<Rightarrow> int32"
  fld_sum :: "addr \<Rightarrow> sumfn"
  fields_at :: addr
  m16_at :: addr
  mn_at :: addr
  printed :: "addr list list"

text \<open>\<open>offsetof(struct field, list)\<close>, behind an \<open>int\<close>, its padding and a pointer.\<close>

definition list_of :: "addr \<Rightarrow> addr" where
  "list_of f = f + 16"

definition container_of :: "addr \<Rightarrow> addr" where
  "container_of p = p - 16"

definition register_field :: "modules \<Rightarrow> addr \<Rightarrow> modules" where
  "register_field st f =
     (let st = st\<lparr>hp := list_add (hp st) (list_of f) (fields_at st)\<rparr>;
          st = st\<lparr>printed := printed st @ [[f, list_of f, nxt (hp st) (fields_at st)]]\<rparr>;
          st = st\<lparr>printed := printed st @ [[f, container_of (list_of f)]]\<rparr>
      in st)"

text \<open>The loop of \<open>get_field\<close> from the field \<open>f\<close> on; the outer \<open>None\<close> is an endless loop, the
  inner one the null pointer.\<close>

partial_function (option) get_loop :: "modules \<Rightarrow> int32 \<Rightarrow> addr \<Rightarrow> addr option option" where
  "get_loop st m f =
     (if list_of f = fields_at st then Some None
      else if fld_m st f = m then Some (Some f)
      else get_loop st m (container_of (nxt (hp st) (list_of f))))"

definition get_field :: "modules \<Rightarrow> int32 \<Rightarrow> addr option option" where
  "get_field st m = get_loop st m (container_of (nxt (hp st) (fields_at st)))"

definition sum16 :: "int32 \<Rightarrow> int32 \<Rightarrow> int32" where
  "sum16 a b = and (a + b) 15"

text \<open>The remainder of C: towards zero, trapping on a zero divisor and on \<open>INT_MIN % -1\<close>.\<close>

definition c_rem :: "int32 \<Rightarrow> int32 \<Rightarrow> int32 res" where
  "c_rem a b =
     (if b = 0 \<or> sint a = - (2 ^ 31) \<and> sint b = - 1 then Inl Div_trap
      else Inr (word_of_int (sint a smod sint b)))"

definition sumn :: "modules \<Rightarrow> int32 \<Rightarrow> int32 \<Rightarrow> int32 res" where
  "sumn st a b = c_rem (a + b) (fld_m st (mn_at st))"

definition call_sum :: "modules \<Rightarrow> addr \<Rightarrow> int32 \<Rightarrow> int32 \<Rightarrow> int32 res" where
  "call_sum st f a b = (case fld_sum st f of Sum16 \<Rightarrow> Inr (sum16 a b) | SumN \<Rightarrow> sumn st a b)"

text \<open>The function \<open>sum\<close>: an unknown modulus turns the generic field (\<open>m = 0\<close>) into its field.\<close>

definition field_sum :: "modules \<Rightarrow> int32 \<Rightarrow> int32 \<Rightarrow> int32 \<Rightarrow> (int32 \<times> modules) res" where
  "field_sum st m a b =
     (case get_field st m of
        None \<Rightarrow> Inl Blocked
      | Some (Some f) \<Rightarrow> rbind (call_sum st f a b) (\<lambda>r. Inr (r, st))
      | Some None \<Rightarrow>
          (case get_field st 0 of
             None \<Rightarrow> Inl Blocked
           | Some None \<Rightarrow> Inl Null_deref
           | Some (Some f) \<Rightarrow>
               (let st = st\<lparr>fld_m := (fld_m st)(f := m)\<rparr>
                in rbind (call_sum st f a b) (\<lambda>r. Inr (r, st)))))"

subsection \<open>Loading\<close>

text \<open>
  \<open>flib\<close> is the process once \<open>libflib.so\<close> is mapped; loading a module maps its static field
  and runs its constructor \<open>my_load\<close>.
\<close>

definition flib :: "modules \<Rightarrow> modules" where
  "flib st = st\<lparr>hp := list_init (hp st) (fields_at st)\<rparr>"

definition m16_load :: "modules \<Rightarrow> modules" where
  "m16_load st = register_field
     (st\<lparr>fld_m := (fld_m st)(m16_at st := 16), fld_sum := (fld_sum st)(m16_at st := Sum16)\<rparr>) (m16_at st)"

definition mn_load :: "modules \<Rightarrow> modules" where
  "mn_load st =
     (let st = st\<lparr>fld_m := (fld_m st)(mn_at st := 0), fld_sum := (fld_sum st)(mn_at st := SumN)\<rparr>;
          st = register_field st (mn_at st)
      in st\<lparr>printed := printed st @ [[mn_at st]]\<rparr>)"

text \<open>What \<open>dlopen(argv[1])\<close> finds; \<open>No_module\<close> when it returns null.\<close>

datatype module_file = No_module | M16_so | Mn_so

definition dlopen_now :: "modules \<Rightarrow> module_file \<Rightarrow> modules \<times> bool" where
  "dlopen_now st file = (case file of
       No_module \<Rightarrow> (st, False) | M16_so \<Rightarrow> (m16_load st, True) | Mn_so \<Rightarrow> (mn_load st, True))"

primrec sum_steps :: "nat \<Rightarrow> modules \<Rightarrow> int32 \<Rightarrow> int32 \<Rightarrow> int32 \<Rightarrow> int32 \<Rightarrow> (int32 \<times> modules) res" where
  "sum_steps 0 st m a b s = Inr (s, st)"
| "sum_steps (Suc n) st m a b s = rbind (field_sum st m a b) (\<lambda>(r, st). sum_steps n st m a b (s + r))"

definition STEPS :: nat where
  "STEPS = 100000000"

text \<open>\<open>main\<close>: whether it prints the error text, and the number it prints at the end.\<close>

definition main_field :: "modules \<Rightarrow> module_file \<Rightarrow> bool \<times> int32 res" where
  "main_field st file =
     (let a = 12345678; b = 738654231; (st, ok) = dlopen_now (flib st) file
      in (\<not> ok, rbind (sum_steps STEPS st 16 a b 0) (\<lambda>(s, st). Inr s)))"

subsection \<open>The registry\<close>

text \<open>\<open>registered st fs\<close>: the fields \<open>fs\<close> are registered, in this order.\<close>

definition registered :: "modules \<Rightarrow> addr list \<Rightarrow> bool" where
  "registered st fs \<longleftrightarrow> ring (hp st) (fields_at st) (map list_of (rev fs))"

lemma container_list [simp]: "container_of (list_of f) = f" "list_of (container_of p) = p"
  by (simp_all add: container_of_def list_of_def)

lemma list_of_eq [simp]: "list_of f = list_of g \<longleftrightarrow> f = g"
  by (simp add: list_of_def)

lemma list_of_image [simp]: "list_of f \<in> list_of ` A \<longleftrightarrow> f \<in> A"
  by auto

lemma registered_cong:
  "hp st = hp st' \<Longrightarrow> fields_at st = fields_at st' \<Longrightarrow> registered st fs = registered st' fs"
  by (simp add: registered_def)

lemma registered_flib: "registered (flib st) []"
  using dl.holds_init by (simp add: registered_def flib_def)

lemma register_field_simps [simp]:
  "fld_m (register_field st f) = fld_m st" "fld_sum (register_field st f) = fld_sum st"
  "fields_at (register_field st f) = fields_at st" "m16_at (register_field st f) = m16_at st"
  "mn_at (register_field st f) = mn_at st"
  "hp (register_field st f) = list_add (hp st) (list_of f) (fields_at st)"
  by (simp_all add: register_field_def Let_def)

lemma registered_register:
  assumes "registered st fs" "f \<notin> set fs" "list_of f \<noteq> fields_at st"
  shows "registered (register_field st f) (fs @ [f])"
  using assms dl.holds_add [of "hp st" "fields_at st" "map list_of (rev fs)" "list_of f"]
  by (auto simp: registered_def)

lemma get_loop_registered:
  "ring (hp st) (fields_at st) (xs @ map list_of fs) \<Longrightarrow>
     get_loop st m (container_of (hd (map list_of fs @ [fields_at st]))) = Some (find (\<lambda>f. fld_m st f = m) fs)"
proof (induction fs arbitrary: xs)
  case Nil
  then show ?case by (simp add: get_loop.simps)
next
  case (Cons f fs)
  have "list_of f \<noteq> fields_at st" using Cons.prems by (auto simp: ring_def)
  moreover have "nxt (hp st) (list_of f) = hd (map list_of fs @ [fields_at st])"
    using ring_nxt [of "hp st" "fields_at st" "xs @ [list_of f]" "map list_of fs"] Cons.prems by simp
  moreover have "get_loop st m (container_of (hd (map list_of fs @ [fields_at st]))) =
      Some (find (\<lambda>f. fld_m st f = m) fs)"
    using Cons.IH [of "xs @ [list_of f]"] Cons.prems by simp
  ultimately show ?case by (subst get_loop.simps) simp
qed

lemma get_field_registered:
  "registered st fs \<Longrightarrow> get_field st m = Some (find (\<lambda>f. fld_m st f = m) (rev fs))"
  using get_loop_registered [of st "[]" "rev fs" m]
    dl.holds_succ [of "hp st" "fields_at st" "[]" "map list_of (rev fs)"]
  by (simp add: registered_def get_field_def)

lemma find_rev_last:
  "find P (rev (fs @ [f])) = (if P f then Some f else find P (rev fs))"
  by simp

lemma registered_m16:
  "list_of (m16_at st) \<noteq> fields_at st \<Longrightarrow> registered (m16_load (flib st)) [m16_at st]"
  unfolding m16_load_def
  using registered_register [of "flib st\<lparr>fld_m := (fld_m (flib st))(m16_at (flib st) := 16),
      fld_sum := (fld_sum (flib st))(m16_at (flib st) := Sum16)\<rparr>" "[]" "m16_at st"] registered_flib [of st]
  by (simp add: registered_def flib_def)

lemma registered_mn:
  "list_of (mn_at st) \<noteq> fields_at st \<Longrightarrow> registered (mn_load (flib st)) [mn_at st]"
  unfolding mn_load_def
  using registered_register [of "flib st\<lparr>fld_m := (fld_m (flib st))(mn_at (flib st) := 0),
      fld_sum := (fld_sum (flib st))(mn_at (flib st) := SumN)\<rparr>" "[]" "mn_at st"] registered_flib [of st]
  by (simp add: registered_def flib_def Let_def)

text \<open>What \<open>sum\<close> does with one registered field.\<close>

lemma sum_one_known:
  "registered st [f] \<Longrightarrow> fld_m st f = m \<Longrightarrow>
     field_sum st m a b = rbind (call_sum st f a b) (\<lambda>r. Inr (r, st))"
  by (simp add: field_sum_def get_field_registered)

lemma sum_one_generic:
  "registered st [f] \<Longrightarrow> fld_m st f = 0 \<Longrightarrow> m \<noteq> 0 \<Longrightarrow>
     field_sum st m a b =
     rbind (call_sum (st\<lparr>fld_m := (fld_m st)(f := m)\<rparr>) f a b)
       (\<lambda>r. Inr (r, st\<lparr>fld_m := (fld_m st)(f := m)\<rparr>))"
  by (simp add: field_sum_def get_field_registered Let_def)

lemma sum_one_unknown:
  "registered st [f] \<Longrightarrow> fld_m st f \<noteq> m \<Longrightarrow> fld_m st f \<noteq> 0 \<Longrightarrow> field_sum st m a b = Inl Null_deref"
  by (simp add: field_sum_def get_field_registered)

subsection \<open>The two additions\<close>

lemma sum16_mod: "sum16 a b = word_of_int (sint (a + b) mod 16)"
proof -
  have "sum16 a b = take_bit 4 (word_of_int (sint (a + b)) :: int32)"
    by (simp add: sum16_def take_bit_eq_mask mask_eq_exp_minus_1)
  also have "\<dots> = word_of_int (take_bit 4 (sint (a + b)))"
    by (rule take_bit_of_int)
  finally show ?thesis by (simp add: take_bit_eq_mod)
qed

lemma c_rem_16: "c_rem c 16 = Inr (word_of_int (sint c smod 16))"
  by (simp add: c_rem_def)

lemma word_of_int_small:
  "- 16 < x \<Longrightarrow> x < 16 \<Longrightarrow> sint (word_of_int x :: int32) = x"
  by (simp add: sint_sbintrunc' signed_take_bit_int_eq_self)

lemma smod_16: "x smod 16 = (if 0 \<le> x \<or> 16 dvd x then x mod 16 else x mod 16 - 16)" for x :: int
proof (cases "0 \<le> x")
  case True
  then show ?thesis by (simp add: smod_mod_positive)
next
  case False
  then show ?thesis by (auto simp: smod_int_alt_def sgn_if zmod_zminus1_eq_if dvd_eq_mod_eq_0)
qed

lemma agree_16: "word_of_int (x mod 16) = (word_of_int (x smod 16) :: int32) \<longleftrightarrow> 0 \<le> x \<or> 16 dvd x"
proof
  assume "word_of_int (x mod 16) = (word_of_int (x smod 16) :: int32)"
  then have "sint (word_of_int (x mod 16) :: int32) = sint (word_of_int (x smod 16) :: int32)" by simp
  moreover have "- 16 < x smod 16" "x smod 16 < 16"
    using pos_mod_bound [of 16 x] pos_mod_sign [of 16 x] by (auto simp: smod_16 dvd_eq_mod_eq_0 simp del: pos_mod_bound pos_mod_sign)
  moreover have "sint (word_of_int (x mod 16) :: int32) = x mod 16"
    by (rule word_of_int_small) (use pos_mod_bound [of 16 x] pos_mod_sign [of 16 x] in linarith)+
  ultimately have "x mod 16 = x smod 16" by (simp add: word_of_int_small)
  then show "0 \<le> x \<or> 16 dvd x" by (simp add: smod_16 split: if_splits)
qed (simp add: smod_16)

subsection \<open>Properties\<close>

text \<open>C22: \<open>get_field\<close> always returns, and finds the field registered last among those with the
  modulus asked for, or none; registering another field keeps that and asks the new one first.\<close>
theorem get_field_finds_last:
  assumes "registered st fs" "f \<notin> set fs" "list_of f \<noteq> fields_at st"
  shows "get_field st m = Some (find (\<lambda>f. fld_m st f = m) (rev fs)) \<and>
         get_field (register_field st f) m =
           Some (if fld_m st f = m then Some f else find (\<lambda>f. fld_m st f = m) (rev fs)) \<and>
         registered (register_field st f) (fs @ [f])"
  using get_field_registered [OF assms(1)] registered_register [OF assms]
    get_field_registered [OF registered_register [OF assms]] by simp

text \<open>A process image with the static objects at three places.\<close>

definition image :: modules where
  "image = \<lparr>hp = no_heap, fld_m = (\<lambda>_. 7), fld_sum = (\<lambda>_. Sum16), fields_at = 4096,
     m16_at = 8192, mn_at = 12288, printed = []\<rparr>"

lemma image_simps [simp]:
  "fields_at image = 4096" "m16_at image = 8192" "mn_at image = 12288" "fld_m image = (\<lambda>_. 7)"
  by (simp_all add: image_def)

theorem get_field_finds_last_witness:
  "get_field (register_field (m16_load (flib image)) 500) 7 = Some (Some 500)"
  using get_field_finds_last [OF registered_m16, of image 500 7]
  by (simp add: list_of_def m16_load_def flib_def)

text \<open>C23: the module \<open>m16.so\<close> and the generic module \<open>mn.so\<close> asked for the modulus 16 give the
  same sum exactly when \<open>a + b\<close>, in 32 bits, is not negative or a multiple of 16: the mask of
  the one and the remainder of the other differ on negative sums.\<close>
theorem modules_agree:
  assumes "list_of (m16_at st) \<noteq> fields_at st" "list_of (mn_at st) \<noteq> fields_at st"
  shows "(\<exists>r s t. field_sum (m16_load (flib st)) 16 a b = Inr (r, s) \<and>
            field_sum (mn_load (flib st)) 16 a b = Inr (r, t)) \<longleftrightarrow>
         (0 \<le> sint (a + b) \<or> 16 dvd sint (a + b))"
proof -
  have "field_sum (m16_load (flib st)) 16 a b =
      Inr (word_of_int (sint (a + b) mod 16), m16_load (flib st))"
    using sum_one_known [OF registered_m16 [OF assms(1)], of 16 a b]
    by (simp add: m16_load_def flib_def call_sum_def sum16_mod)
  moreover have "\<exists>t. field_sum (mn_load (flib st)) 16 a b =
      Inr (word_of_int (sint (a + b) smod 16), t)"
    using sum_one_generic [OF registered_mn [OF assms(2)], of 16 a b]
    by (simp add: mn_load_def flib_def Let_def call_sum_def sumn_def c_rem_16)
  ultimately show ?thesis
    using agree_16 [of "sint (a + b)"] by auto
qed

theorem modules_agree_witness:
  "\<not> (\<exists>r s t. field_sum (m16_load (flib image)) 16 3 (- 8) = Inr (r, s) \<and>
         field_sum (mn_load (flib image)) 16 3 (- 8) = Inr (r, t))"
proof -
  have "sint (3 + - 8 :: int32) = - 5" by simp
  then show ?thesis
    using modules_agree [of image 3 "- 8"] by (simp add: list_of_def)
qed

lemma sum_generic_twice:
  assumes "list_of (mn_at st) \<noteq> fields_at st" "m \<noteq> 0" "m \<noteq> - 1"
  shows "\<exists>t. registered t [mn_at st] \<and> fld_m t (mn_at st) = m \<and>
     (\<forall>a b. field_sum (mn_load (flib st)) m a b = Inr (word_of_int (sint (a + b) smod sint m), t) \<and>
       field_sum t m a b = Inr (word_of_int (sint (a + b) smod sint m), t))"
proof -
  let ?s = "mn_load (flib st)" let ?f = "mn_at st"
  let ?t = "?s\<lparr>fld_m := (fld_m ?s)(?f := m)\<rparr>"
  have mn: "mn_at ?s = ?f" "fld_m ?s ?f = 0" "fld_sum ?s ?f = SumN"
    by (simp_all add: mn_load_def flib_def Let_def)
  have reg: "registered ?s [?f]" by (rule registered_mn [OF assms(1)])
  then have regt: "registered ?t [?f]" by (simp add: registered_def)
  have "sint m \<noteq> - 1"
  proof
    assume "sint m = - 1"
    then have "(of_int (sint m) :: int32) = of_int (- 1)" by (simp only:)
    then show False using assms(3) by simp
  qed
  then have rem: "call_sum ?t ?f a b = Inr (word_of_int (sint (a + b) smod sint m))" for a b
    using assms(2) mn by (simp add: call_sum_def sumn_def c_rem_def)
  have "field_sum ?s m a b = Inr (word_of_int (sint (a + b) smod sint m), ?t)"
    "field_sum ?t m a b = Inr (word_of_int (sint (a + b) smod sint m), ?t)" for a b
    using sum_one_generic [OF reg mn(2) assms(2), of a b] sum_one_known [OF regt, of m a b] rem by simp_all
  then show ?thesis using regt by (intro exI [of _ ?t]) simp
qed

text \<open>C24: the generic module serves one modulus only: the first request for \<open>m \<noteq> 0\<close> makes it the
  field of \<open>m\<close>, requests for \<open>m\<close> work from then on, and the first request for any other
  modulus follows the null pointer \<open>get_field(0)\<close> returns; a first request for modulus 0
  divides by zero.\<close>
theorem generic_serves_one_modulus:
  assumes "list_of (mn_at st) \<noteq> fields_at st" "m \<noteq> 0" "m \<noteq> - 1" "m' \<noteq> m"
  shows "(\<exists>t. field_sum (mn_load (flib st)) m a b = Inr (word_of_int (sint (a + b) smod sint m), t) \<and>
            field_sum t m c d = Inr (word_of_int (sint (c + d) smod sint m), t) \<and>
            field_sum t m' c d = Inl Null_deref) \<and>
         field_sum (mn_load (flib st)) 0 a b = Inl Div_trap"
proof -
  obtain t where "registered t [mn_at st]" "fld_m t (mn_at st) = m"
    and t: "field_sum (mn_load (flib st)) m a b = Inr (word_of_int (sint (a + b) smod sint m), t)"
      "field_sum t m c d = Inr (word_of_int (sint (c + d) smod sint m), t)"
    using sum_generic_twice [OF assms(1-3)] by blast
  then have "field_sum t m' c d = Inl Null_deref"
    using sum_one_unknown [of t "mn_at st" m' c d] assms by simp
  moreover have "field_sum (mn_load (flib st)) 0 a b = Inl Div_trap"
    using sum_one_known [OF registered_mn [OF assms(1)], of 0 a b]
    by (simp add: mn_load_def flib_def Let_def call_sum_def sumn_def c_rem_def)
  ultimately show ?thesis using t by blast
qed

theorem generic_serves_one_modulus_witness:
  "field_sum (mn_load (flib image)) 0 1 2 = Inl Div_trap"
  using generic_serves_one_modulus [of image 16 17 1 2 3 4] by (simp add: list_of_def)

text \<open>The benchmark adds the same sum over and over.\<close>

lemma sum_steps_const:
  assumes "field_sum st m a b = Inr (r, st)"
  shows "sum_steps n st m a b s = Inr (s + of_nat n * r, st)"
  by (induction n arbitrary: s) (simp_all add: assms algebra_simps)

lemma sum_steps_crash: "field_sum st m a b = Inl e \<Longrightarrow> 0 < n \<Longrightarrow> sum_steps n st m a b s = Inl e"
  by (cases n) simp_all

lemma sum_steps_Suc_const:
  assumes "field_sum st m a b = Inr (r, t)" "field_sum t m a b = Inr (r, t)"
  shows "sum_steps (Suc n) st m a b s = Inr (s + of_nat (Suc n) * r, t)"
  using sum_steps_const [OF assms(2), of n "s + r"] by (simp add: assms(1) algebra_simps)

text \<open>The benchmark ends with the sum 500000000 whichever of the two modules it loads, and
  when it can load none it reports that, goes on and crashes in the first \<open>sum\<close>.\<close>
theorem benchmark_result:
  assumes "list_of (m16_at st) \<noteq> fields_at st" "list_of (mn_at st) \<noteq> fields_at st"
  shows "main_field st M16_so = (False, Inr 500000000) \<and> main_field st Mn_so = (False, Inr 500000000) \<and>
         main_field st No_module = (True, Inl Null_deref)"
proof -
  let ?a = "12345678 :: int32" let ?b = "738654231 :: int32"
  have m: "(word_of_int (sint (?a + ?b) mod 16) :: int32) = 5"
    "(word_of_int (sint (?a + ?b) smod 16) :: int32) = 5" by simp_all
  have steps: "STEPS = Suc 99999999" by (simp add: STEPS_def)
  have five: "(of_nat STEPS :: int32) * 5 = 500000000" by (simp add: STEPS_def)
  have "field_sum (m16_load (flib st)) 16 ?a ?b = Inr (5, m16_load (flib st))"
    using sum_one_known [OF registered_m16 [OF assms(1)], of 16 ?a ?b] m
    by (simp add: m16_load_def flib_def call_sum_def sum16_mod)
  then have "main_field st M16_so = (False, Inr 500000000)"
    using sum_steps_const [of _ 16 ?a ?b 5 STEPS 0] five by (simp add: main_field_def dlopen_now_def)
  moreover obtain t where "field_sum (mn_load (flib st)) 16 ?a ?b = Inr (word_of_int (sint (?a + ?b) smod sint (16 :: int32)), t)"
    "field_sum t 16 ?a ?b = Inr (word_of_int (sint (?a + ?b) smod sint (16 :: int32)), t)"
    using sum_generic_twice [OF assms(2), of 16] by auto
  then have "field_sum (mn_load (flib st)) 16 ?a ?b = Inr (5, t)" "field_sum t 16 ?a ?b = Inr (5, t)"
    by simp_all
  then have "main_field st Mn_so = (False, Inr 500000000)"
    using sum_steps_Suc_const [of _ 16 ?a ?b 5 t 99999999 0] five steps by (simp add: main_field_def dlopen_now_def)
  moreover have "main_field st No_module = (True, Inl Null_deref)"
  proof -
    have "field_sum (flib st) 16 ?a ?b = Inl Null_deref"
      by (simp add: field_sum_def get_field_registered [OF registered_flib])
    then have "sum_steps STEPS (flib st) 16 ?a ?b 0 = Inl Null_deref"
      by (rule sum_steps_crash) (simp add: STEPS_def)
    then show ?thesis by (simp add: main_field_def dlopen_now_def)
  qed
  ultimately show ?thesis by blast
qed

theorem benchmark_result_witness: "main_field image Mn_so = (False, Inr 500000000)"
  using benchmark_result [of image] by (simp add: list_of_def)

end
