(* ===== verification/Proc.thy ===== *)
theory Proc
  imports CString
begin

section \<open>Processes and their system calls\<close>

text \<open>
  The client and server programs are sequences of system calls whose results the environment
  decides. A process carries its environment (\<open>env k c\<close> is what the \<open>k\<close>-th call returns when it
  is the call \<open>c\<close>) and the trace of the calls made so far, with the data they were given; every
  property about what a program sends, stores or logs is a property of its trace, for all
  environments. \<open>fork\<close> returns 0 or a positive number like any other call: the model follows the
  process that gets the answer.
\<close>

text \<open>An argument of a format: \<open>Unterminated\<close> is a \<open>%s\<close> whose buffer holds no NUL, so the call reads
  on behind it; \<open>Undef\<close> is a buffer or variable never written, \<open>Errno_text\<close> is \<open>strerror(errno)\<close>.\<close>

datatype arg = I int | S string | Unterminated buf | Undef | Errno_text

definition str_arg :: "buf \<Rightarrow> arg" where
  "str_arg b = (if nul \<in> set b then S (cstr b) else Unterminated b)"

text \<open>Socket addresses: family, port and address, the last two in network order.\<close>

type_synonym sockaddr = "int \<times> int \<times> int"

datatype level = INFO | ERR | WARN

datatype call =
    Log level string "arg list"
  | Perror string
  | Printf string "arg list"
  | Sendto int buf sockaddr
  | Recvfrom int nat bool
  | Read int nat
  | Write int buf
  | Poll int
  | Bind int sockaddr
  | Pipe
  | Fork
  | Close int
  | Kill int string
  | Sys string "arg list"

text \<open>
  \<open>Recvfrom\<close> tells whether \<open>MSG_DONTWAIT\<close> is set; \<open>Sys\<close> is any other call, by its name and
  the arguments that matter.
\<close>

text \<open>What a call returns: its value, the bytes it stores, the peer it names, whether a poll reports
  \<open>POLLIN\<close> and nothing else.\<close>

record answer =
  val :: int
  bytes :: buf
  peer :: sockaddr
  pollin :: bool

record proc =
  env :: "nat \<Rightarrow> call \<Rightarrow> answer"
  trace :: "call list"

definition sys :: "call \<Rightarrow> ('a proc_scheme, answer) state" where
  "sys c = State (\<lambda>s. (env s (length (trace s)) c, s\<lparr>trace := trace s @ [c]\<rparr>))"

text \<open>\<open>recv b n r\<close>: the first \<open>n\<close> bytes of the buffer \<open>b\<close> after a call that stores up to \<open>n\<close> bytes.\<close>

definition received :: "buf \<Rightarrow> nat \<Rightarrow> answer \<Rightarrow> buf" where
  "received b n r = write_at b 0 (take n (bytes r))"

subsection \<open>How a function ends\<close>

text \<open>
  \<open>Ret v\<close> is a return, \<open>NoValue\<close> falling off the end of a function that should return a value,
  \<open>Exited\<close> the end of the process, \<open>Became\<close> a successful \<open>exec\<close>, \<open>Running\<close> a loop still running
  after the rounds the caller of the model allows, and \<open>Fault\<close> undefined behaviour.
\<close>

datatype ret = Ret int | NoValue | Exited int | Became string | Running | Fault fail

text \<open>
  Going on with the value a call returned; what does not return ends the caller as well. Where a
  function has returned no value the caller finds what the environment has left in the register.
\<close>

definition left_over :: "('a proc_scheme, int) state" where
  "left_over = State (\<lambda>s. (val (env s (length (trace s)) (Sys ''no value'' [])), s))"

definition on_ret :: "ret \<Rightarrow> (int \<Rightarrow> ('a proc_scheme, ret) state) \<Rightarrow> ('a proc_scheme, ret) state" where
  "on_ret r f = (case r of
       Ret v \<Rightarrow> f v
     | NoValue \<Rightarrow> do { v \<leftarrow> left_over; f v }
     | _ \<Rightarrow> State_Monad.return r)"

definition pr_info :: "string \<Rightarrow> arg list \<Rightarrow> ('a proc_scheme, answer) state" where
  "pr_info fmt params = sys (Log INFO fmt params)"

definition pr_err :: "string \<Rightarrow> arg list \<Rightarrow> ('a proc_scheme, answer) state" where
  "pr_err fmt params = sys (Log ERR fmt params)"

text \<open>Reporting an error, to the log or with \<open>perror\<close>, and returning -1.\<close>

definition err_log :: "string \<Rightarrow> ('a proc_scheme, ret) state" where
  "err_log fmt = do { _ \<leftarrow> pr_err fmt []; State_Monad.return (Ret (- 1)) }"

definition err_out :: "string \<Rightarrow> ('a proc_scheme, ret) state" where
  "err_out msg = do { _ \<leftarrow> sys (Perror msg); State_Monad.return (Ret (- 1)) }"

subsection \<open>Symbolic execution\<close>

lemma run_bind [run_simps]:
  "run_state (State_Monad.bind m f) s = (case run_state m s of (x, s') \<Rightarrow> run_state (f x) s')"
  by (simp add: State_Monad.bind_def)

lemma run_return [run_simps]: "run_state (State_Monad.return x) s = (x, s)"
  by (simp add: State_Monad.return_def)

lemma run_get [run_simps]: "run_state State_Monad.get s = (s, s)"
  by (simp add: State_Monad.get_def)

lemma run_set [run_simps]: "run_state (State_Monad.set s') s = ((), s')"
  by (simp add: State_Monad.set_def)

lemma run_update [run_simps]: "run_state (State_Monad.update f) s = ((), f s)"
  by (simp add: State_Monad.update_def run_simps)

lemma run_sys [run_simps]:
  "run_state (sys c) s = (env s (length (trace s)) c, s\<lparr>trace := trace s @ [c]\<rparr>)"
  by (simp add: sys_def)

lemma run_left_over [run_simps]:
  "run_state left_over s = (val (env s (length (trace s)) (Sys ''no value'' [])), s)"
  by (simp add: left_over_def)

lemma on_ret_simps [run_simps]:
  "on_ret (Ret v) f = f v" "on_ret NoValue f = do { v \<leftarrow> left_over; f v }"
  "on_ret (Exited c) f = State_Monad.return (Exited c)"
  "on_ret (Became p) f = State_Monad.return (Became p)"
  "on_ret Running f = State_Monad.return Running" "on_ret (Fault e) f = State_Monad.return (Fault e)"
  by (simp_all add: on_ret_def)

lemmas log_defs = pr_info_def pr_err_def err_log_def err_out_def

text \<open>Calls that never fail: the environment answers each with a number that is not negative.\<close>

definition calls_succeed :: "'a proc_scheme \<Rightarrow> bool" where
  "calls_succeed s \<longleftrightarrow> (\<forall>k c. 0 \<le> val (env s k c))"

lemma calls_succeedD: "calls_succeed s \<Longrightarrow> 0 \<le> val (env s k c)"
  by (simp add: calls_succeed_def)

lemma calls_succeed_not_neg: "calls_succeed s \<Longrightarrow> \<not> val (env s k c) < 0"
  by (simp add: calls_succeed_def not_less)

subsection \<open>The cipher\<close>

definition BUFSZ :: nat where
  "BUFSZ = 256"

definition IDSZ :: nat where
  "IDSZ = 10"

definition PORT :: int where
  "PORT = 23456"

definition htons :: "int \<Rightarrow> int" where
  "htons n = n mod 256 * 256 + n div 256"

text \<open>The macro \<open>crypto\<close>: every byte of a buffer of \<open>BUFSZ\<close> bytes xor the key.\<close>

definition crypto :: "char \<Rightarrow> buf \<Rightarrow> buf" where
  "crypto K b = map (\<lambda>c. xor_char c K) (take BUFSZ b) @ drop BUFSZ b"

lemma crypto_invol [simp]: "crypto K (crypto K b) = b"
  by (simp add: crypto_def min_def o_def not_le)

lemma length_crypto [simp]: "length (crypto K b) = length b"
  by (simp add: crypto_def)

lemma crypto_short: "length b \<le> BUFSZ \<Longrightarrow> crypto K b = map (\<lambda>c. xor_char c K) b"
  by (simp add: crypto_def)

lemma BUFSZ_pos [simp]: "0 < BUFSZ" "BUFSZ \<noteq> 0"
  by (simp_all add: BUFSZ_def)

end
