(* ===== verification/DfKe.thy ===== *)
theory DfKe
  imports CString "HOL-Library.Signed_Division"
begin

section \<open>Key exchange: \<open>udp/dfke.c\<close>\<close>

text \<open>
  The four functions of \<open>dfke.c\<close> compute with \<open>long double\<close>, whose 64-bit significand holds
  every integer below \<open>2^64\<close> exactly. The model computes on integers and has no result
  (\<open>Indeterminate\<close>) where the power does not fit, where the modulus is zero, and where the
  conversion to \<open>char\<close> is out of range, which C leaves undefined.
\<close>

definition powl :: "int \<Rightarrow> nat \<Rightarrow> int res" where
  "powl x n = (if \<bar>x ^ n\<bar> < 2 ^ 64 then Inr (x ^ n) else Inl Indeterminate)"

definition fmodl_char :: "int \<Rightarrow> int \<Rightarrow> char res" where
  "fmodl_char t p =
     (if p \<noteq> 0 \<and> - 128 \<le> t smod p \<and> t smod p < 128 then Inr (char_of_int (t smod p)) else Inl Indeterminate)"

definition gen_open_key_server :: "int \<Rightarrow> nat \<Rightarrow> int \<Rightarrow> char res" where
  "gen_open_key_server g a p = rbind (powl g a) (\<lambda>t. fmodl_char t p)"

definition gen_open_key_client :: "int \<Rightarrow> nat \<Rightarrow> int \<Rightarrow> char res" where
  "gen_open_key_client g b p = rbind (powl g b) (\<lambda>t. fmodl_char t p)"

definition gen_close_key_server :: "char \<Rightarrow> nat \<Rightarrow> int \<Rightarrow> char res" where
  "gen_close_key_server B a p = rbind (powl (schar B) a) (\<lambda>t. fmodl_char t p)"

definition gen_close_key_client :: "char \<Rightarrow> nat \<Rightarrow> int \<Rightarrow> char res" where
  "gen_close_key_client A b p = rbind (powl (schar A) b) (\<lambda>t. fmodl_char t p)"

text \<open>The constants \<open>g\<close>, \<open>p\<close>, \<open>a\<close> and \<open>b\<close> both sides are compiled with.\<close>

definition dh_g :: int where
  "dh_g = 23"

definition dh_p :: int where
  "dh_p = 256"

definition dh_a :: nat where
  "dh_a = 4"

definition dh_b :: nat where
  "dh_b = 11"

subsection \<open>Both sides compute the same key\<close>

lemma schar_char_of_int:
  assumes "0 \<le> v" "v < 128"
  shows "schar (char_of_int v) = v"
proof -
  have n: "(of_char (char_of (nat v)) :: nat) = nat v" using assms by (simp add: of_char_of)
  have "(of_char (char_of (nat v)) :: int) = int (of_char (char_of (nat v)))"
    by (rule of_nat_of_char [symmetric])
  then have "(of_char (char_of (nat v)) :: int) = v" using n assms by simp
  then show ?thesis using assms by (simp add: schar_def char_of_int_def)
qed

lemma power_fmodl:
  assumes "rbind (powl x n) (\<lambda>t. fmodl_char t p) = Inr c" "0 \<le> x" "0 < p"
  shows "c = char_of_int (x ^ n mod p) \<and> schar c = x ^ n mod p"
proof -
  have "x ^ n smod p = x ^ n mod p" using assms by (simp add: smod_mod_positive)
  then have "c = char_of_int (x ^ n mod p)" "x ^ n mod p < 128"
    using assms(1) by (auto simp: rbind_eq_Inr_iff powl_def fmodl_char_def split: if_splits)
  then show ?thesis using assms(3) by (simp add: schar_char_of_int)
qed

text \<open>Whenever the two public keys and the two shared keys are all defined, server and client
  end with the same shared key, for every generator, modulus and pair of exponents.\<close>
theorem keys_agree:
  assumes "gen_open_key_server g a p = Inr A" "gen_open_key_client g b p = Inr B"
    and "gen_close_key_server B a p = Inr k" "gen_close_key_client A b p = Inr k'"
    and "0 \<le> g" "0 < p"
  shows "k = k'"
proof -
  have A: "schar A = g ^ a mod p" and B: "schar B = g ^ b mod p"
    using power_fmodl assms by (simp_all add: gen_open_key_server_def gen_open_key_client_def)
  then have "0 \<le> schar A" "0 \<le> schar B" using assms(6) by simp_all
  then have "k = char_of_int (schar B ^ a mod p)" "k' = char_of_int (schar A ^ b mod p)"
    using power_fmodl assms(3,4,6) by (simp_all add: gen_close_key_server_def gen_close_key_client_def)
  then show ?thesis
    by (simp add: A B power_mod mult.commute flip: power_mult)
qed

text \<open>With the constants of the programs the public keys are 33 and 71 and the shared key is the
  letter \<open>a\<close>.\<close>

lemma program_keys:
  "gen_open_key_server dh_g dh_a dh_p = Inr (CHR 0x21)"
  "gen_open_key_client dh_g dh_b dh_p = Inr (CHR ''G'')"
  "gen_close_key_server (CHR ''G'') dh_a dh_p = Inr (CHR ''a'')"
  "gen_close_key_client (CHR 0x21) dh_b dh_p = Inr (CHR ''a'')"
  by (simp_all add: gen_open_key_server_def gen_open_key_client_def gen_close_key_server_def
      gen_close_key_client_def powl_def fmodl_char_def char_of_int_def schar_def
      dh_g_def dh_a_def dh_b_def dh_p_def char_of_eq_iff)

theorem keys_agree_witness:
  "gen_close_key_server (CHR ''G'') dh_a dh_p = gen_close_key_client (CHR 0x21) dh_b dh_p"
  using keys_agree [OF program_keys(1) program_keys(2) program_keys(3) program_keys(4)] program_keys
  by (simp add: dh_g_def dh_p_def)

end
