(* ===== verification/IdTable.thy ===== *)
theory IdTable
  imports Prelude
begin

section \<open>The contract of a table of client numbers\<close>

text \<open>
  The server numbers its clients: \<open>conn i t\<close> enters the id \<open>i\<close> and gives its number, or a
  negative one when there is no room, \<open>look i t\<close> finds the number again and \<open>slot t n\<close> is
  the id with number \<open>n\<close>. 0 is no id.
\<close>

locale id_table =
  fixes conn :: "int \<Rightarrow> 't \<Rightarrow> int \<times> 't"
    and look :: "int \<Rightarrow> 't \<Rightarrow> int"
    and slot :: "'t \<Rightarrow> int \<Rightarrow> int"
  assumes conn_look: "conn i t = (n, t') \<Longrightarrow> 0 \<le> n \<Longrightarrow> look i t' = n"
    and conn_other: "conn i t = (n, t') \<Longrightarrow> j \<noteq> i \<Longrightarrow> j \<noteq> 0 \<Longrightarrow> look j t' = look j t"
    and look_slot: "0 \<le> look i t \<Longrightarrow> slot t (look i t) = i"
    and conn_full: "conn i t = (n, t') \<Longrightarrow> n < 0 \<Longrightarrow> t' = t"
begin

text \<open>Entering several ids, and the table that is left when all of them found room.\<close>

fun conn_all :: "int list \<Rightarrow> 't \<Rightarrow> 't option" where
  "conn_all [] t = Some t"
| "conn_all (i # is) t = (case conn i t of (n, t') \<Rightarrow> if n < 0 then None else conn_all is t')"

lemma conn_all_keeps:
  "conn_all is t = Some t' \<Longrightarrow> j \<notin> set is \<Longrightarrow> j \<noteq> 0 \<Longrightarrow> look j t' = look j t"
proof (induction "is" arbitrary: t)
  case (Cons i "is")
  obtain n u where u: "conn i t = (n, u)" by fastforce
  then have "conn_all is u = Some t'" using Cons.prems by (simp split: if_splits)
  then have "look j t' = look j u" using Cons by simp
  then show ?case using conn_other [OF u] Cons.prems by simp
qed simp

lemma conn_all_finds:
  "conn_all is t = Some t' \<Longrightarrow> 0 \<notin> set is \<Longrightarrow> i \<in> set is \<Longrightarrow> 0 \<le> look i t'"
proof (induction "is" arbitrary: t)
  case (Cons j "is")
  obtain n u where u: "conn j t = (n, u)" by fastforce
  then have n: "0 \<le> n" "conn_all is u = Some t'" using Cons.prems by (simp_all split: if_splits)
  show ?case
  proof (cases "i \<in> set is")
    case True
    then show ?thesis using Cons.IH [OF n(2)] Cons.prems by simp
  next
    case False
    then have "look i t' = look i u" using conn_all_keeps [OF n(2)] Cons.prems by auto
    then show ?thesis using conn_look [OF u n(1)] n(1) False Cons.prems by simp
  qed
qed simp

text \<open>Different ids that are in the table have different numbers.\<close>

lemma look_inj: "0 \<le> look i t \<Longrightarrow> 0 \<le> look j t \<Longrightarrow> look i t = look j t \<Longrightarrow> i = j"
  by (metis look_slot)

lemma conn_all_separate:
  assumes "conn_all is t = Some t'" "0 \<notin> set is" "i \<in> set is" "j \<in> set is" "i \<noteq> j"
  shows "look i t' \<noteq> look j t'"
  using assms conn_all_finds look_inj by metis

end

end
