(* ===== verification/UdpLib.thy ===== *)
theory UdpLib
  imports Proc DfKe IdTable
begin

section \<open>The datagram transport of the server: \<open>udp/udp.c\<close>\<close>

text \<open>
  The process of the server: the static variables of \<open>udp.c\<close> and \<open>server.c\<close> and the objects
  of \<open>main\<close> that the handlers get by reference. \<open>mas\<close> is the array of the ids of the
  clients, \<open>data_pipe\<close> the array of their pipes, whose elements are uninitialised until
  \<open>pipe\<close> has filled them.
\<close>

record srv = proc +
  K :: char
  bash_work :: int
  bash_pid :: int
  num :: int
  mas :: "nat \<Rightarrow> int"
  data_pipe :: "nat \<Rightarrow> (int \<times> int) option"
  name :: sockaddr
  sk :: int

definition MAX_CLIENTS :: nat where
  "MAX_CLIENTS = 10000"

text \<open>
  \<open>settings\<close> tests the pointer \<open>sk\<close> where it means the descriptor, so a failed \<open>socket\<close> goes
  on to \<open>bind\<close>; and it has no \<open>return\<close> at its end.
\<close>

definition settings :: "(srv, ret) state" where
  "settings = do {
     r \<leftarrow> sys (Sys ''log_init'' []);
     if val r < 0 then err_out ''log_init''
     else do {
       State_Monad.update (name_update (\<lambda>_. (2, htons PORT, 0)));
       r \<leftarrow> sys (Sys ''socket'' [S ''SOCK_DGRAM'']);
       State_Monad.update (sk_update (\<lambda>_. val r));
       s \<leftarrow> State_Monad.get;
       r \<leftarrow> sys (Bind (sk s) (name s));
       if val r < 0 then err_log ''bind sk''
       else State_Monad.return NoValue } }"

definition broadcast :: "int \<Rightarrow> sockaddr \<Rightarrow> (srv, ret) state" where
  "broadcast ans_sk nm = do {
     _ \<leftarrow> pr_info ''broadcast name: %d %d %d'' [I (fst nm), I (fst (snd nm)), I (snd (snd nm))];
     r \<leftarrow> sys (Sendto ans_sk [nul] nm);
     if val r \<noteq> 1 then err_log ''answer to broadcast''
     else State_Monad.return (Ret 0) }"

text \<open>
  \<open>decypher\<close> gives the id and the text behind it, in two zeroed buffers of \<open>BUFSZ\<close> bytes; a text
  of \<open>BUFSZ\<close> bytes or more does not fit. The comparisons with null never hold.
\<close>

definition decypher :: "buf \<Rightarrow> (int \<times> buf \<times> buf) res" where
  "decypher buffer =
     (let zero = replicate BUFSZ nul;
          my_ip_str = strncpy zero buffer (IDSZ - 1);
          rest = drop (IDSZ - 1) buffer
      in if BUFSZ \<le> strlen rest then Inl Overflow
         else Inr (atoi my_ip_str, my_ip_str, strcpy zero rest))"

function connect_from :: "int \<Rightarrow> (nat \<Rightarrow> int) \<Rightarrow> nat \<Rightarrow> int \<times> (nat \<Rightarrow> int)" where
  "connect_from i m k =
     (if k < MAX_CLIENTS then
        (if m k = 0 \<or> m k = i then (int k, m(k := i)) else connect_from i m (k + 1))
      else (- 1, m))"
  by pat_completeness auto

termination
  by (relation "measure (\<lambda>(i, m, k). MAX_CLIENTS - k)") auto

definition connect_id :: "int \<Rightarrow> (nat \<Rightarrow> int) \<Rightarrow> int \<times> (nat \<Rightarrow> int)" where
  "connect_id i m = connect_from i m 0"

function find_from :: "int \<Rightarrow> (nat \<Rightarrow> int) \<Rightarrow> nat \<Rightarrow> int" where
  "find_from i m k =
     (if k < MAX_CLIENTS then (if m k = i then int k else find_from i m (k + 1)) else - 1)"
  by pat_completeness auto

termination
  by (relation "measure (\<lambda>(i, m, k). MAX_CLIENTS - k)") auto

definition find_id :: "int \<Rightarrow> (nat \<Rightarrow> int) \<Rightarrow> int" where
  "find_id i m = find_from i m 0"

declare connect_from.simps [simp del] find_from.simps [simp del]

subsection \<open>The table of clients\<close>

lemma connect_from_result:
  "connect_from i m k = (n, m') \<Longrightarrow>
     n = - 1 \<and> m' = m \<and> (\<forall>j. k \<le> j \<longrightarrow> j < MAX_CLIENTS \<longrightarrow> m j \<noteq> 0 \<and> m j \<noteq> i) \<or>
     (\<exists>j. n = int j \<and> k \<le> j \<and> j < MAX_CLIENTS \<and> (m j = 0 \<or> m j = i) \<and> m' = m(j := i) \<and>
        (\<forall>l. k \<le> l \<longrightarrow> l < j \<longrightarrow> m l \<noteq> i))"
proof (induction i m k rule: connect_from.induct)
  case (1 i m k)
  consider "\<not> k < MAX_CLIENTS" | "k < MAX_CLIENTS" "m k = 0 \<or> m k = i"
    | "k < MAX_CLIENTS" "\<not> (m k = 0 \<or> m k = i)" by blast
  then show ?case
  proof cases
    case 3
    then have "connect_from i m (k + 1) = (n, m')" using 1(2) by (simp add: connect_from.simps [of i m k])
    from 1(1) [OF 3 this] have IH: "n = - 1 \<and> m' = m \<and>
        (\<forall>j. k + 1 \<le> j \<longrightarrow> j < MAX_CLIENTS \<longrightarrow> m j \<noteq> 0 \<and> m j \<noteq> i) \<or>
        (\<exists>j. n = int j \<and> k + 1 \<le> j \<and> j < MAX_CLIENTS \<and> (m j = 0 \<or> m j = i) \<and> m' = m(j := i) \<and>
          (\<forall>l. k + 1 \<le> l \<longrightarrow> l < j \<longrightarrow> m l \<noteq> i))" .
    have up: "k \<le> l \<Longrightarrow> l = k \<or> k + 1 \<le> l" for l by linarith
    from IH consider "n = - 1" "m' = m" "\<And>j. k + 1 \<le> j \<Longrightarrow> j < MAX_CLIENTS \<Longrightarrow> m j \<noteq> 0 \<and> m j \<noteq> i"
      | j where "n = int j" "k + 1 \<le> j" "j < MAX_CLIENTS" "m j = 0 \<or> m j = i" "m' = m(j := i)"
          "\<And>l. k + 1 \<le> l \<Longrightarrow> l < j \<Longrightarrow> m l \<noteq> i" by blast
    then show ?thesis
    proof cases
      case 1
      then show ?thesis using 3(2) up by (metis (no_types))
    next
      case (2 j)
      then have "\<forall>l. k \<le> l \<longrightarrow> l < j \<longrightarrow> m l \<noteq> i" using 3(2) up by metis
      then show ?thesis using 2 by (intro disjI2 exI [of _ j]) simp
    qed
  qed (use 1(2) in \<open>auto simp: connect_from.simps [of i m k] fun_upd_def\<close>)
qed

lemma find_from_first:
  "k \<le> j \<Longrightarrow> j < MAX_CLIENTS \<Longrightarrow> m j = i \<Longrightarrow> (\<And>l. k \<le> l \<Longrightarrow> l < j \<Longrightarrow> m l \<noteq> i) \<Longrightarrow> find_from i m k = int j"
proof (induction i m k rule: find_from.induct)
  case (1 i m k)
  show ?case
  proof (cases "k = j")
    case True
    then show ?thesis using 1 by (simp add: find_from.simps [of i m j])
  next
    case False
    then show ?thesis using 1 by (simp add: find_from.simps [of i m k])
  qed
qed

lemma find_from_cong:
  "(\<And>j. k \<le> j \<Longrightarrow> (m j = i) = (m' j = i)) \<Longrightarrow> find_from i m k = find_from i m' k"
proof (induction i m k rule: find_from.induct)
  case (1 i m k)
  have "(m k = i) = (m' k = i)" using 1(2) by blast
  moreover have "k < MAX_CLIENTS \<Longrightarrow> m k \<noteq> i \<Longrightarrow> find_from i m (k + 1) = find_from i m' (k + 1)"
    using 1 by simp
  ultimately show ?case by (simp add: find_from.simps [of i m k] find_from.simps [of i m' k])
qed

lemma find_from_slot: "0 \<le> find_from i m k \<Longrightarrow> m (nat (find_from i m k)) = i"
proof (induction i m k rule: find_from.induct)
  case (1 i m k)
  then show ?case
    by (cases "k < MAX_CLIENTS"; cases "m k = i") (simp_all add: find_from.simps [of i m k])
qed

interpretation ids: id_table connect_id find_id "\<lambda>m n. m (nat n)"
proof (unfold_locales, goal_cases)
  case (1 i m n m')
  then obtain j where "n = int j" "j < MAX_CLIENTS" "m' = m(j := i)" "\<And>l. l < j \<Longrightarrow> m l \<noteq> i"
    using connect_from_result [of i m 0 n m'] by (auto simp: connect_id_def)
  then show ?case using find_from_first [of 0 j m' i] by (simp add: find_id_def)
next
  case (2 i m n m' j)
  then have "m' = m \<or> (\<exists>k. (m k = 0 \<or> m k = i) \<and> m' = m(k := i))"
    using connect_from_result [of i m 0 n m'] by (auto simp: connect_id_def)
  then have "(m' k = j) = (m k = j)" for k using 2 by auto
  then show ?case using find_from_cong [of 0 m' j m] by (simp add: find_id_def)
next
  case (3 i m)
  then show ?case using find_from_slot by (simp add: find_id_def)
next
  case (4 i m n m')
  then show ?case using connect_from_result [of i m 0 n m'] by (auto simp: connect_id_def)
qed

text \<open>C7: connecting a client gives it a number under which \<open>find\<close> finds it again, leaves the
  numbers of all other clients as they are and never gives out one of theirs; it fails exactly
  when every slot belongs to another client, and then changes nothing.\<close>
theorem clients_keep_numbers:
  assumes "connect_id i m = (n, m')"
  shows "(0 \<le> n \<longrightarrow> find_id i m' = n \<and>
            (\<forall>j. j \<notin> {0, i} \<longrightarrow> find_id j m' = find_id j m \<and> (0 \<le> find_id j m \<longrightarrow> find_id j m \<noteq> n))) \<and>
         (n < 0 \<longleftrightarrow> (\<forall>k < MAX_CLIENTS. m k \<notin> {0, i})) \<and> (n < 0 \<longrightarrow> m' = m)"
proof -
  have "find_id j m \<noteq> n" if "0 \<le> n" "j \<notin> {0, i}" "0 \<le> find_id j m" for j
    using ids.conn_look [OF assms that(1)] ids.conn_other [OF assms, of j] ids.look_inj [of i m' j] that
    by auto
  moreover have "n < 0 \<longleftrightarrow> (\<forall>k < MAX_CLIENTS. m k \<notin> {0, i})"
    using connect_from_result [of i m 0 n m'] assms by (auto simp: connect_id_def)
  ultimately show ?thesis
    using ids.conn_look [OF assms] ids.conn_other [OF assms] ids.conn_full [OF assms] by blast
qed

theorem clients_keep_numbers_witness:
  "find_id 7 (snd (connect_id 7 ((\<lambda>_. 0)(0 := 5)))) = 1"
proof -
  have "connect_id 7 ((\<lambda>_. 0)(0 := 5)) = (1, (\<lambda>_. 0)(0 := 5, 1 := 7))"
    by (simp add: connect_id_def connect_from.simps [of _ _ 0] connect_from.simps [of _ _ "Suc 0"] MAX_CLIENTS_def)
  then show ?thesis using clients_keep_numbers by (metis snd_conv zero_le_one)
qed

subsection \<open>The handlers\<close>

text \<open>\<open>send_info\<close> leaves the buffer encrypted when the call fails and cleared when it succeeds.\<close>

definition send_info :: "int \<Rightarrow> buf \<Rightarrow> sockaddr \<Rightarrow> (srv, ret \<times> buf) state" where
  "send_info fd buffer nm = do {
     s \<leftarrow> State_Monad.get;
     let buffer = crypto (K s) buffer;
     _ \<leftarrow> pr_info (''send info:'' @ [CHR 0x0A] @ ''%s'') [str_arg buffer];
     r \<leftarrow> sys (Sendto fd (take BUFSZ buffer) nm);
     if val r < 0 \<or> val r > int BUFSZ then do {
       e \<leftarrow> err_log ''sendto'';
       State_Monad.return (e, buffer) }
     else State_Monad.return (Ret 0, memset0 BUFSZ buffer) }"

text \<open>
  The command executor \<open>execution\<close> of \<open>server.c\<close> comes as a function pointer: it takes the
  received text, the socket and the address to answer to, and the descriptor of the shell, which
  may not have been set yet.
\<close>

type_synonym executor =
  "buf \<Rightarrow> int \<Rightarrow> sockaddr \<Rightarrow> int option \<Rightarrow> (srv, ret \<times> buf \<times> int option) state"

primrec child_loop :: "nat \<Rightarrow> executor \<Rightarrow> int \<Rightarrow> int \<Rightarrow> sockaddr \<Rightarrow> int option \<Rightarrow> (srv, ret) state" where
  "child_loop 0 exec pipe0 ans_sk nm fd = State_Monad.return Running"
| "child_loop (Suc n) exec pipe0 ans_sk nm fd = do {
     r \<leftarrow> sys (Read pipe0 BUFSZ);
     if val r < 0 then err_log ''read from data_pipe[my_ip][0]''
     else do {
       s \<leftarrow> State_Monad.get;
       let child_buf = crypto (K s) (received (replicate BUFSZ nul) BUFSZ r);
       _ \<leftarrow> pr_info ''read from pipe: %s'' [str_arg child_buf];
       (e, _, fd) \<leftarrow> exec child_buf ans_sk nm fd;
       on_ret e (\<lambda>v. if v < 0 then err_log ''execution''
                     else child_loop n exec pipe0 ans_sk nm fd) } }"

text \<open>
  The sub-process of one client. The key functions have defined results for the constants of the
  program; \<open>K\<close> is the key of this process from the exchange on.
\<close>

definition child_handle :: "nat \<Rightarrow> executor \<Rightarrow> int \<Rightarrow> sockaddr \<Rightarrow> (srv, ret) state" where
  "child_handle n exec pipe0 nm = do {
     _ \<leftarrow> sys (Sys ''signal'' [S ''SIGCHLD'', S ''off_bash'']);
     _ \<leftarrow> pr_info ''IM HERE'' [];
     r \<leftarrow> sys (Sys ''socket'' [S ''SOCK_DGRAM'']);
     if val r < 0 then err_log ''socket ans_sk''
     else case gen_open_key_server dh_g dh_a dh_p of
       Inl e \<Rightarrow> State_Monad.return (Fault e)
     | Inr A \<Rightarrow> do {
         let ans_sk = val r;
         (_, temp) \<leftarrow> send_info ans_sk (zbuf BUFSZ [A]) nm;
         let temp = temp[0 := nul];
         r \<leftarrow> sys (Read pipe0 BUFSZ);
         if val r < 0 then err_log ''getting key''
         else do {
           let temp = received temp BUFSZ r;
           _ \<leftarrow> pr_info ''A, B is %d %d'' [I (schar A), I (schar (temp ! 0))];
           case gen_close_key_server (temp ! 0) dh_a dh_p of
             Inl e \<Rightarrow> State_Monad.return (Fault e)
           | Inr k \<Rightarrow> do {
               State_Monad.update (K_update (\<lambda>_. k));
               child_loop n exec pipe0 ans_sk nm None } } } }"

definition connect_prefix :: string where
  "connect_prefix = ''!connect!''"

text \<open>
  \<open>fork\<close> returns 0 in the child, which becomes the sub-process; should \<open>child_handle\<close> ever
  return, the child goes on as if it were the server. \<open>pipe\<close> stores its two descriptors: the
  address of its answer, whose first two components stand for them.
\<close>

definition com_connect :: "nat \<Rightarrow> executor \<Rightarrow> buf \<Rightarrow> (srv, ret) state" where
  "com_connect n exec buffer = do {
     let my_ip_str = strncpy (replicate BUFSZ nul) (drop (length connect_prefix) buffer) IDSZ;
     _ \<leftarrow> pr_info ''my_ip_str, com_connect: %s'' [str_arg my_ip_str];
     let cid = atoi my_ip_str;
     s \<leftarrow> State_Monad.get;
     let (v, m) = connect_id cid (mas s);
     State_Monad.update (\<lambda>s. s\<lparr>num := v, mas := m\<rparr>);
     if v < 0 then err_log ''connect_id''
     else do {
       _ \<leftarrow> pr_info ''num in server_handler is %d'' [I v];
       _ \<leftarrow> pr_info ''connected id %d, num %d'' [I cid, I v];
       r \<leftarrow> sys Pipe;
       if val r < 0 then err_log ''pipe''
       else do {
         let (fd0, fd1, _) = peer r;
         State_Monad.update (data_pipe_update (\<lambda>p. p(nat v := Some (fd0, fd1))));
         s \<leftarrow> State_Monad.get;
         r \<leftarrow> sys Fork;
         if val r = 0 then do {
           e \<leftarrow> child_handle n exec fd0 (name s);
           on_ret e (\<lambda>w. if w < 0 then err_log ''child_handle'' else State_Monad.return (Ret 0)) }
         else if val r < 0 then err_log ''fork''
         else State_Monad.return (Ret 0) } } }"

definition quit_line :: string where
  "quit_line = ''quit'' @ [CHR 0x0A]"

definition master_handler :: "buf \<Rightarrow> (srv, ret) state" where
  "master_handler buffer = (case decypher buffer of
       Inl e \<Rightarrow> State_Monad.return (Fault e)
     | Inr (cid, my_ip_str, rest) \<Rightarrow>
         if cid = - 1 then err_log ''id cannot be recognized''
         else do {
           s \<leftarrow> State_Monad.get;
           let v = find_id cid (mas s);
           State_Monad.update (num_update (\<lambda>_. v));
           if v < 0 then err_log ''find error''
           else do {
             _ \<leftarrow> pr_info ''found id %d, num %d'' [I cid, I v];
             _ \<leftarrow> pr_info ''write to pipe[%d]: %s'' [I v, str_arg rest];
             case data_pipe s (nat v) of
               None \<Rightarrow> State_Monad.return (Fault Indeterminate)
             | Some (fd0, fd1) \<Rightarrow> do {
                 r \<leftarrow> sys (Write fd1 rest);
                 if val r < 0 then err_log ''write to data_pipe[my_ip][1]''
                 else if strncmp_eq 6 rest quit_line then do {
                   r \<leftarrow> sys (Close fd0);
                   if val r = - 1 then err_log ''close data_pipe[*num][0]''
                   else do {
                     r \<leftarrow> sys (Close fd1);
                     if val r = - 1 then err_log ''close data_pipe[*num][1]''
                     else do {
                       State_Monad.update (mas_update (\<lambda>m. m(nat v := 0)));
                       _ \<leftarrow> pr_info ''%d disconnected'' [I v];
                       State_Monad.return (Ret 0) } } }
                 else State_Monad.return (Ret 0) } } })"

definition hello :: string where
  "hello = ''!hello!''"

definition server_handler :: "nat \<Rightarrow> executor \<Rightarrow> (srv, ret) state" where
  "server_handler n exec = do {
     s \<leftarrow> State_Monad.get;
     r \<leftarrow> sys (Recvfrom (sk s) (BUFSZ + IDSZ) False);
     if val r < 0 then err_log ''recvfrom sk''
     else do {
       let buffer = received (replicate (BUFSZ + IDSZ) nul) (BUFSZ + IDSZ) r;
       State_Monad.update (name_update (\<lambda>_. peer r));
       if strcmp_eq buffer hello then do {
         e \<leftarrow> broadcast (sk s) (peer r);
         on_ret e (\<lambda>v. if v < 0 then err_log ''broadcast'' else State_Monad.return (Ret 0)) }
       else if strncmp_eq (length connect_prefix) buffer connect_prefix then do {
         e \<leftarrow> com_connect n exec buffer;
         on_ret e (\<lambda>v. if v < 0 then err_log ''com_connect'' else State_Monad.return (Ret 0)) }
       else do {
         e \<leftarrow> master_handler buffer;
         on_ret e (\<lambda>v. if v < 0 then err_log ''master_handler'' else State_Monad.return (Ret 0)) } } }"

end
