(* ===== verification/TcpLib.thy ===== *)
theory TcpLib
  imports UdpLib
begin

section \<open>The stream transport of the server: \<open>udp/tcp.c\<close>\<close>

text \<open>
  The same five functions over a connected socket: a sub-process is forked for each connection,
  with the key its parent has just computed. The address argument of the executor is not used
  (the code passes null).
\<close>

definition no_addr :: sockaddr where
  "no_addr = (0, 0, 0)"

text \<open>\<open>inet_addr("127.0.0.1")\<close> in network order, read as a little-endian number.\<close>

definition loopback :: int where
  "loopback = 127 + 2 ^ 24"

definition settings_tcp :: "(srv, ret) state" where
  "settings_tcp = do {
     r \<leftarrow> sys (Sys ''log_init'' []);
     if val r < 0 then err_out ''log_init''
     else do {
       r \<leftarrow> sys (Sys ''socket'' [S ''SOCK_STREAM'']);
       State_Monad.update (sk_update (\<lambda>_. val r));
       if val r < 0 then err_out ''socket''
       else do {
         State_Monad.update (name_update (\<lambda>_. (2, htons PORT, loopback)));
         s \<leftarrow> State_Monad.get;
         r \<leftarrow> sys (Bind (sk s) (name s));
         if val r < 0 then do {
           _ \<leftarrow> sys (Perror ''bind_1'');
           _ \<leftarrow> sys (Close (sk s));
           State_Monad.return (Ret (- 1)) }
         else do {
           r \<leftarrow> sys (Sys ''listen'' [I (sk s), I 20]);
           if val r \<noteq> 0 then do {
             _ \<leftarrow> sys (Perror ''listen'');
             _ \<leftarrow> sys (Close (sk s));
             State_Monad.return (Ret (- 1)) }
           else State_Monad.return (Ret 0) } } } }"

definition send_info_tcp :: "int \<Rightarrow> buf \<Rightarrow> sockaddr \<Rightarrow> (srv, ret \<times> buf) state" where
  "send_info_tcp fd buffer nm = do {
     s \<leftarrow> State_Monad.get;
     let buffer = crypto (K s) buffer;
     r \<leftarrow> sys (Write fd (take BUFSZ buffer));
     if val r < 0 then do {
       e \<leftarrow> err_log ''send_info'';
       State_Monad.return (e, buffer) }
     else State_Monad.return (Ret 0, memset0 BUFSZ buffer) }"

text \<open>The buffer is declared outside the loop: a read stores over what the executor has left.\<close>

primrec child_loop_tcp :: "nat \<Rightarrow> executor \<Rightarrow> int \<Rightarrow> buf \<Rightarrow> int option \<Rightarrow> (srv, ret) state" where
  "child_loop_tcp 0 exec fork_sk child_buf fd = State_Monad.return Running"
| "child_loop_tcp (Suc n) exec fork_sk child_buf fd = do {
     r \<leftarrow> sys (Read fork_sk BUFSZ);
     if val r < 0 then err_log ''read''
     else do {
       s \<leftarrow> State_Monad.get;
       let child_buf = crypto (K s) (received child_buf BUFSZ r);
       _ \<leftarrow> pr_info ''received: %s'' [str_arg child_buf];
       (e, child_buf, fd) \<leftarrow> exec child_buf fork_sk no_addr fd;
       on_ret e (\<lambda>v. if v < 0 then err_log ''execution''
                     else child_loop_tcp n exec fork_sk child_buf fd) } }"

definition child_handle_tcp :: "nat \<Rightarrow> executor \<Rightarrow> int \<Rightarrow> (srv, ret) state" where
  "child_handle_tcp n exec fork_sk = do {
     _ \<leftarrow> sys (Sys ''signal'' [S ''SIGCHLD'', S ''off_bash'']);
     child_loop_tcp n exec fork_sk (replicate BUFSZ nul) None }"

text \<open>A peer that closes early sends no key: the byte stays 0. The log prints a buffer nothing was
  stored in, and a failing \<open>fork\<close> is taken for success.\<close>

definition server_handler_tcp :: "nat \<Rightarrow> executor \<Rightarrow> (srv, ret) state" where
  "server_handler_tcp n exec = (case gen_open_key_server dh_g dh_a dh_p of
       Inl e \<Rightarrow> State_Monad.return (Fault e)
     | Inr A \<Rightarrow> do {
         _ \<leftarrow> pr_info ''waiting for hello msg'' [];
         s \<leftarrow> State_Monad.get;
         r \<leftarrow> sys (Sys ''accept'' [I (sk s)]);
         let client_sk = val r;
         if client_sk < 0 then err_log ''accept''
         else do {
           _ \<leftarrow> pr_info ''accept pass'' [];
           r \<leftarrow> sys (Read client_sk 1);
           if val r < 0 then err_log ''read''
           else do {
             let B = hd (received [nul] 1 r);
             r \<leftarrow> sys (Write client_sk [A]);
             if val r < 0 then err_log ''write''
             else do {
               _ \<leftarrow> pr_info ''A, B is %d %d'' [I (schar A), I (schar B)];
               case gen_close_key_server B dh_a dh_p of
                 Inl e \<Rightarrow> State_Monad.return (Fault e)
               | Inr k \<Rightarrow> do {
                   State_Monad.update (K_update (\<lambda>_. k));
                   _ \<leftarrow> pr_info ''received: %s'' [Undef];
                   r \<leftarrow> sys Fork;
                   if val r = 0 then do {
                     e \<leftarrow> child_handle_tcp n exec client_sk;
                     on_ret e (\<lambda>v. if v < 0 then err_log ''child_handle'' else State_Monad.return (Ret 0)) }
                   else State_Monad.return (Ret 0) } } } } })"

end
