(* ===== verification/Server.thy ===== *)
theory Server
  imports TcpLib
begin

section \<open>The server: \<open>udp/server.c\<close>\<close>

text \<open>The two transports, and the functions \<open>dlsym\<close> takes out of them.\<close>

datatype transport = Udp | Tcp

definition send_info_of :: "transport \<Rightarrow> int \<Rightarrow> buf \<Rightarrow> sockaddr \<Rightarrow> (srv, ret \<times> buf) state" where
  "send_info_of t = (case t of Udp \<Rightarrow> send_info | Tcp \<Rightarrow> send_info_tcp)"

definition settings_of :: "transport \<Rightarrow> (srv, ret) state" where
  "settings_of t = (case t of Udp \<Rightarrow> settings | Tcp \<Rightarrow> settings_tcp)"

definition server_handler_of :: "transport \<Rightarrow> nat \<Rightarrow> executor \<Rightarrow> (srv, ret) state" where
  "server_handler_of t = (case t of Udp \<Rightarrow> server_handler | Tcp \<Rightarrow> server_handler_tcp)"

text \<open>The signal handlers.\<close>

definition stop_server :: "(srv, ret) state" where
  "stop_server = do {
     _ \<leftarrow> pr_info ''stop_server'' [];
     s \<leftarrow> State_Monad.get;
     r \<leftarrow> sys (Kill (bash_pid s) ''SIGKILL'');
     _ \<leftarrow> (if val r < 0 then pr_err ''kill'' [] else State_Monad.return r);
     r \<leftarrow> sys (Sys ''killpg'' [I 0, S ''SIGKILL'']);
     _ \<leftarrow> (if val r < 0 then pr_err ''killpg'' [] else State_Monad.return r);
     State_Monad.return (Exited 0) }"

definition off_bash :: "(srv, unit) state" where
  "off_bash = do {
     _ \<leftarrow> pr_info ''SIGCHLD'' [];
     State_Monad.update (bash_work_update (\<lambda>_. 0)) }"

definition choose_mode :: "string \<Rightarrow> (srv, transport option) state" where
  "choose_mode argv1 =
     (if strcmp_eq argv1 ''udp'' then do {
        _ \<leftarrow> pr_info ''udp loaded'' [];
        r \<leftarrow> sys (Sys ''dlopen'' [S ''./libudp.so'']);
        State_Monad.return (if val r = 0 then None else Some Udp) }
      else if strcmp_eq argv1 ''tcp'' then do {
        _ \<leftarrow> pr_info ''tcp loaded'' [];
        r \<leftarrow> sys (Sys ''dlopen'' [S ''./libtcpl.so'']);
        State_Monad.return (if val r = 0 then None else Some Tcp) }
      else do {
        _ \<leftarrow> sys (Perror ''argument should be tcp or udp'');
        State_Monad.return None })"

text \<open>
  The child of \<open>shell\<close>: its descriptors, its session and the program it becomes. \<open>bash_pid\<close> is
  stored here, in the memory of the child only.
\<close>

definition shell_child :: "int \<Rightarrow> (srv, ret) state" where
  "shell_child resfd = do {
     r \<leftarrow> sys (Sys ''getpgid'' [I 0]);
     _ \<leftarrow> pr_info ''bash pgid is %d'' [I (val r)];
     r \<leftarrow> sys (Sys ''dup2'' [I resfd, I 0]);
     if val r < 0 then err_log ''dup2 resfd 0''
     else do {
       r \<leftarrow> sys (Sys ''dup2'' [I resfd, I 1]);
       if val r < 0 then err_log ''dup2 resfd 1''
       else do {
         r \<leftarrow> sys (Sys ''dup2'' [I resfd, I 2]);
         if val r < 0 then err_log ''dup2 resfd 2''
         else do {
           r \<leftarrow> sys (Sys ''setsid'' []);
           _ \<leftarrow> (if val r < 0 then pr_err ''setsid'' [] else State_Monad.return r);
           r \<leftarrow> sys (Sys ''getpgid'' [I 0]);
           _ \<leftarrow> pr_info ''bash pgid after setsid is %d'' [I (val r)];
           r \<leftarrow> sys (Sys ''getpid'' []);
           State_Monad.update (bash_pid_update (\<lambda>_. val r));
           r \<leftarrow> sys (Sys ''execl'' [S ''/bin/bash'']);
           if val r < 0 then err_log ''execl''
           else State_Monad.return (Became ''/bin/bash'') } } } }"

text \<open>A stray semicolon makes the call of \<open>pr_err\<close> after \<open>tcsetattr\<close> unconditional.\<close>

definition shell :: "(srv, ret) state" where
  "shell = do {
     r \<leftarrow> sys (Sys ''open'' [S ''/dev/ptmx'']);
     let fd = val r;
     if fd < 0 then err_log ''open fd''
     else do {
       _ \<leftarrow> pr_info ''Bash started with fd %d'' [I fd];
       r \<leftarrow> sys (Sys ''grantpt'' [I fd]);
       if val r < 0 then do { _ \<leftarrow> pr_err ''grantpt %s'' [Errno_text]; State_Monad.return (Ret (- 1)) }
       else do {
         r \<leftarrow> sys (Sys ''unlockpt'' [I fd]);
         if val r < 0 then do { _ \<leftarrow> pr_err ''unlockpt %s'' [Errno_text]; State_Monad.return (Ret (- 1)) }
         else do {
           r \<leftarrow> sys (Sys ''ptsname'' [I fd]);
           if val r = 0 then err_log ''ptsname''
           else do {
             r \<leftarrow> sys (Sys ''open'' [S (cstr (bytes r))]);
             let resfd = val r;
             if resfd < 0 then err_log ''open resfd''
             else do {
               _ \<leftarrow> sys (Sys ''tcsetattr'' [I resfd, Undef]);
               _ \<leftarrow> pr_err ''tcsetattr'' [];
               r \<leftarrow> sys Fork;
               if val r = 0 then shell_child resfd
               else if val r < 0 then err_log ''fork''
               else State_Monad.return (Ret fd) } } } } } }"

primrec read_bash :: "nat \<Rightarrow> transport \<Rightarrow> int \<Rightarrow> int \<Rightarrow> sockaddr \<Rightarrow> (srv, ret) state" where
  "read_bash 0 t fd ans_sk nm = State_Monad.return Running"
| "read_bash (Suc n) t fd ans_sk nm = do {
     p \<leftarrow> sys (Poll fd);
     if val p = 0 then State_Monad.return (Ret 0)
     else if pollin p then do {
       r \<leftarrow> sys (Read fd BUFSZ);
       if val r < 0 then err_log ''read from bash''
       else do {
         (e, _) \<leftarrow> send_info_of t ans_sk (received (replicate BUFSZ nul) BUFSZ r) nm;
         on_ret e (\<lambda>v. if v < 0 then err_log ''send_info'' else read_bash n t fd ans_sk nm) } }
     else do {
       State_Monad.update (bash_work_update (\<lambda>_. 0));
       _ \<leftarrow> pr_info ''bash_work = 0'' [];
       State_Monad.return (Ret 1) } }"

datatype command = CMD_QUIT | CMD_SHELL | CMD_TO_BASH

definition cmp_comm :: "srv \<Rightarrow> buf \<Rightarrow> command option" where
  "cmp_comm s child_buf =
     (if strncmp_eq 4 child_buf ''quit'' then Some CMD_QUIT
      else if strncmp_eq 5 child_buf ''shell'' then Some CMD_SHELL
      else if bash_work s \<noteq> 0 then Some CMD_TO_BASH
      else None)"

text \<open>The value of \<open>cmp_comm\<close> as the log shows it.\<close>

definition cmd_num :: "command option \<Rightarrow> int" where
  "cmd_num c = (case c of Some CMD_QUIT \<Rightarrow> 0 | Some CMD_SHELL \<Rightarrow> 1 | Some CMD_TO_BASH \<Rightarrow> 2 | None \<Rightarrow> - 1)"

definition unrecognized :: string where
  "unrecognized = ''unrecognized command: ''"

text \<open>
  \<open>execution\<close>: the buffer it gives back is cleared on every path that goes on. The text sent to
  the shell has to be terminated, \<open>strlen\<close> runs on behind the buffer otherwise.
\<close>

definition execution :: "nat \<Rightarrow> transport \<Rightarrow> executor" where
  "execution n t child_buf ans_sk nm fd = do {
     s \<leftarrow> State_Monad.get;
     let cmd = cmp_comm s child_buf;
     _ \<leftarrow> pr_info ''CMD is %d'' [I (cmd_num cmd)];
     case cmd of
       Some CMD_TO_BASH \<Rightarrow> do {
         _ \<leftarrow> pr_info ''to execute: %s'' [str_arg child_buf];
         case fd of
           None \<Rightarrow> State_Monad.return (Fault Indeterminate, child_buf, fd)
         | Some f \<Rightarrow>
             if nul \<notin> set child_buf then State_Monad.return (Fault Segv, child_buf, fd)
             else do {
               r \<leftarrow> sys (Write f (cstr child_buf));
               if val r < 0 then do { e \<leftarrow> err_log ''write to bash''; State_Monad.return (e, child_buf, fd) }
               else do {
                 let child_buf = memset0 BUFSZ child_buf;
                 e \<leftarrow> read_bash n t f ans_sk nm;
                 e \<leftarrow> on_ret e (\<lambda>v. if v < 0 then err_log ''read_bash'' else State_Monad.return (Ret 0));
                 State_Monad.return (e, child_buf, fd) } } }
     | Some CMD_QUIT \<Rightarrow> State_Monad.return (Exited 0, child_buf, fd)
     | Some CMD_SHELL \<Rightarrow> do {
         e \<leftarrow> shell;
         case e of
           Ret v \<Rightarrow>
             if v < 3 then do { e \<leftarrow> err_log ''shell''; State_Monad.return (e, child_buf, Some v) }
             else do {
               State_Monad.update (bash_work_update (\<lambda>_. 1));
               State_Monad.return (Ret 0, memset0 BUFSZ child_buf, Some v) }
         | _ \<Rightarrow> State_Monad.return (e, child_buf, fd) }
     | None \<Rightarrow> do {
         _ \<leftarrow> pr_info ''unrecognized command: %s'' [str_arg child_buf];
         let newbuf = snprintf_to BUFSZ (replicate BUFSZ nul) (unrecognized @ cstr child_buf @ [CHR 0x0A]);
         (e, _) \<leftarrow> send_info_of t ans_sk newbuf nm;
         e \<leftarrow> on_ret e (\<lambda>v. if v < 0 then err_log ''send_info'' else State_Monad.return (Ret 0));
         State_Monad.return (e, if e = Ret 0 then memset0 BUFSZ child_buf else child_buf, fd) } }"

text \<open>\<open>main\<close>, from the initial values of the static variables: \<open>m\<close> rounds of its loop, \<open>n\<close> rounds of every loop in the sub-processes.\<close>

primrec server_loop :: "nat \<Rightarrow> nat \<Rightarrow> transport \<Rightarrow> (srv, ret) state" where
  "server_loop 0 n t = State_Monad.return Running"
| "server_loop (Suc m) n t = do {
     e \<leftarrow> server_handler_of t n (execution n t);
     on_ret e (\<lambda>v. if v < 0 then do { _ \<leftarrow> pr_err ''server_handler'' []; server_loop m n t }
                   else server_loop m n t) }"

definition main_server :: "nat \<Rightarrow> nat \<Rightarrow> string list \<Rightarrow> (srv, ret) state" where
  "main_server m n argv = (case argv of
       a0 # a1 # _ \<Rightarrow> do {
         State_Monad.update (\<lambda>s. s\<lparr>K := nul, bash_work := 0, bash_pid := 0, num := 0,
           mas := (\<lambda>_. 0), data_pipe := (\<lambda>_. None)\<rparr>);
         r \<leftarrow> sys (Sys ''log_init'' []);
         if val r < 0 then err_out ''log_init''
         else do {
           sl \<leftarrow> choose_mode a1;
           case sl of
             None \<Rightarrow> do {
               _ \<leftarrow> sys (Printf ''%s'' [S ''dlerror()'']);
               State_Monad.return (Ret (- 1)) }
           | Some t \<Rightarrow> do {
               g \<leftarrow> sys (Sys ''getpgid'' [I 0]);
               p \<leftarrow> sys (Sys ''getpid'' []);
               _ \<leftarrow> pr_info ''server started, pgid is %d, pid is %d'' [I (val g), I (val p)];
               _ \<leftarrow> sys (Sys ''signal'' [S ''SIGINT'', S ''stop_server'']);
               _ \<leftarrow> sys (Printf ''server started'' []);
               r \<leftarrow> sys (Sys ''socket'' [S ''SOCK_DGRAM'']);
               if val r < 0 then do {
                 _ \<leftarrow> sys (Perror ''answer socket'');
                 State_Monad.return (Exited 1) }
               else do {
                 e \<leftarrow> settings_of t;
                 on_ret e (\<lambda>v. if v < 0 then err_out ''settings'' else do {
                   _ \<leftarrow> sys (Sys ''shmget'' [I 42]);
                   r \<leftarrow> sys (Sys ''shmat'' []);
                   p \<leftarrow> sys (Sys ''getpid'' []);
                   if val r = - 1 then State_Monad.return (Fault Segv)
                   else do {
                     _ \<leftarrow> sys (Sys ''store pid'' [I (val p)]);
                     server_loop m n t } }) } } } }
     | _ \<Rightarrow> err_out ''argc < 2'')"

text \<open>
  \<open>con.c\<close> stops the server: it reads the process id the server has left in the shared segment and
  sends it the signal. A failed \<open>shmat\<close> is not noticed before the access.
\<close>

definition main_con :: "('a proc_scheme, ret) state" where
  "main_con = do {
     _ \<leftarrow> sys (Sys ''shmget'' [I 42]);
     r \<leftarrow> sys (Sys ''shmat'' []);
     if val r = - 1 then State_Monad.return (Fault Segv)
     else do {
       p \<leftarrow> sys (Sys ''load pid'' []);
       _ \<leftarrow> sys (Printf ''gid is %d'' [I (val p)]);
       k \<leftarrow> sys (Kill (val p) ''SIGINT'');
       if val k < 0 then err_out ''kill''
       else do {
         _ \<leftarrow> sys (Printf ''SIGINT sent to %d'' [I (val p)]);
         State_Monad.return (Ret 0) } } }"

end
