(* ===== verification/UdpClient.thy ===== *)
theory UdpClient
  imports Proc DfKe
begin

section \<open>The datagram client: \<open>udp/client.c\<close>\<close>

text \<open>
  The static variables: the socket, the address of the server, the id of ten bytes and the key.
  \<open>main\<close> forks: the child receives datagrams and puts them into a pipe, the parent reads lines,
  sends them and prints what comes out of the pipe.
\<close>

record cli = proc +
  csk :: int
  srv_name :: sockaddr
  cid :: buf
  CK :: char
  hear :: sockaddr

definition KEY :: int where
  "KEY = 9973"

definition interrupted :: "(cli, ret) state" where
  "interrupted = do {
     _ \<leftarrow> sys (Printf ''interrupted'' []);
     s \<leftarrow> State_Monad.get;
     let buffer = snprintf_to BUFSZ (replicate BUFSZ nul) (cstr (cid s) @ ''quit'');
     r \<leftarrow> sys (Sendto (csk s) buffer (srv_name s));
     _ \<leftarrow> (if val r < 0 then sys (Perror ''sigint sendto'') else State_Monad.return r);
     State_Monad.return (Exited 0) }"

text \<open>
  The id is the product of the process id and a random number, as an \<open>int\<close> that may have wrapped,
  cut or filled up with zeros to nine characters. \<open>temp\<close> has no NUL, but nothing behind it
  gets into the ten bytes.
\<close>

definition wrap32 :: "int \<Rightarrow> int" where
  "wrap32 v = (v + 2 ^ 31) mod 2 ^ 32 - 2 ^ 31"

definition id_text :: "int \<Rightarrow> string" where
  "id_text rid = take (IDSZ - 1) (show_int rid @ replicate IDSZ (CHR ''0''))"

definition gen_id :: "(cli, ret) state" where
  "gen_id = do {
     p \<leftarrow> sys (Sys ''getpid'' []);
     q \<leftarrow> sys (Sys ''rand'' []);
     State_Monad.update (\<lambda>s. s\<lparr>cid := snprintf_to IDSZ (cid s) (id_text (wrap32 (val p * val q)))\<rparr>);
     s \<leftarrow> State_Monad.get;
     _ \<leftarrow> sys (Printf ''id is %s'' [str_arg (cid s)]);
     State_Monad.return (Ret 0) }"

text \<open>\<open>cypher\<close>, which nothing calls: indented like a branch, its \<open>return -1\<close> is unconditional. The
  remainder is C's, and \<open>sprintf\<close> does not look at the size of the destination.\<close>

definition cypher :: "int \<Rightarrow> int \<Rightarrow> buf \<Rightarrow> buf \<Rightarrow> (int \<times> buf) res" where
  "cypher auth my_psd buffer sendbuf =
     (let text = show_int (wrap32 (my_psd * auth) smod KEY) @ ''!'' @ cstr buffer
      in if length sendbuf \<le> length text then Inl Overflow
         else Inr (- 1, write_at sendbuf 0 (text @ [nul])))"

text \<open>The greeting is sent as \<open>BUFSZ\<close> bytes from a literal of eight: what lies behind it is unknown
  and comes from the environment.\<close>

definition hello_greeting :: string where
  "hello_greeting = ''!hello!''"

definition CLOCKS_TO_WAIT :: nat where
  "CLOCKS_TO_WAIT = 1000"

primrec await_answers :: "nat \<Rightarrow> int \<Rightarrow> nat \<Rightarrow> (cli, nat) state" where
  "await_answers 0 ans_sk count = State_Monad.return count"
| "await_answers (Suc n) ans_sk count = do {
     r \<leftarrow> sys (Recvfrom ans_sk 1 True);
     if val r \<ge> 0 then do {
       _ \<leftarrow> sys (Printf ''%s server found'' [I (snd (snd (peer r)))]);
       await_answers n ans_sk (count + 1) }
     else await_answers n ans_sk count }"

definition broadcast_client :: "buf \<Rightarrow> (cli, ret) state" where
  "broadcast_client behind = do {
     r \<leftarrow> sys (Sys ''socket'' [S ''SOCK_DGRAM'']);
     let ans_sk = val r;
     if ans_sk < 0 then err_out ''socket ans_sk''
     else do {
       r \<leftarrow> sys (Bind ans_sk (2, 0, 0));
       if val r < 0 then err_out ''bind ans_sk''
       else do {
         r \<leftarrow> sys (Sys ''setsockopt SO_BROADCAST'' [I ans_sk]);
         if val r < 0 then err_out ''setsockopt''
         else do {
           r \<leftarrow> sys (Sendto ans_sk (take BUFSZ (hello_greeting @ nul # behind)) (2, htons PORT, - 1));
           if val r < 0 \<or> val r > int BUFSZ then err_out ''broadcast''
           else do {
             r \<leftarrow> sys (Sys ''getsockname'' [I ans_sk]);
             _ \<leftarrow> sys (Printf ''Broadcasting from port %d'' [I (fst (snd (peer r))), I (int CLOCKS_TO_WAIT)]);
             count \<leftarrow> await_answers CLOCKS_TO_WAIT ans_sk 0;
             _ \<leftarrow> sys (Printf ''Waiting is over, %d servers found'' [I (int count)]);
             State_Monad.return (Ret 0) } } } } }"

text \<open>Every datagram that has arrived is decrypted and printed; \<open>n\<close> rounds at most.\<close>

primrec read_receiver :: "nat \<Rightarrow> int \<Rightarrow> (cli, ret) state" where
  "read_receiver 0 pipe0 = State_Monad.return Running"
| "read_receiver (Suc n) pipe0 = do {
     p \<leftarrow> sys (Poll pipe0);
     if val p = 0 then State_Monad.return (Ret 0)
     else if pollin p then do {
       r \<leftarrow> sys (Read pipe0 BUFSZ);
       if val r < 0 then err_out ''read from data_pipe[0]''
       else do {
         s \<leftarrow> State_Monad.get;
         w \<leftarrow> sys (Write 1 (crypto (CK s) (received (replicate BUFSZ nul) BUFSZ r)));
         if val w < 0 then err_out ''write'' else read_receiver n pipe0 } }
     else err_out ''!POLLIN'' }"

text \<open>The datagram \<open>sender\<close> builds of an encrypted line: at most \<open>BUFSZ - 1\<close> characters of the id and
  the line up to its first NUL.\<close>

definition send_text :: "buf \<Rightarrow> buf \<Rightarrow> buf" where
  "send_text ident buffer =
     snprintf_to BUFSZ (replicate (BUFSZ + IDSZ) nul) (cstr ident @ cstr buffer)"

text \<open>
  \<open>sender\<close> compares the still encrypted line with \<open>broadcast\<close>, and has no \<open>return\<close> after it has
  printed the answers.
\<close>

definition sender :: "nat \<Rightarrow> buf \<Rightarrow> int \<Rightarrow> int \<Rightarrow> (cli, ret) state" where
  "sender n behind pid pipe0 = do {
     r \<leftarrow> sys (Read 0 BUFSZ);
     if val r < 0 then err_out ''read''
     else do {
       s \<leftarrow> State_Monad.get;
       let buffer = crypto (CK s) (received (replicate BUFSZ nul) BUFSZ r);
       let sendbuf = send_text (cid s) buffer;
       e \<leftarrow> (if strncmp_eq 9 buffer ''broadcast'' then do {
               e \<leftarrow> broadcast_client behind;
               on_ret e (\<lambda>v. if v < 0 then err_out ''broadcast_client'' else State_Monad.return (Ret 0)) }
             else do {
               r \<leftarrow> sys (Sendto (csk s) (take BUFSZ sendbuf) (srv_name s));
               if val r < 0 then err_out ''sendto''
               else do {
                 let buffer = crypto (CK s) buffer;
                 if strncmp_eq 4 buffer ''quit'' then do {
                   _ \<leftarrow> sys (Kill pid ''SIGTERM'');
                   _ \<leftarrow> sys (Printf ''server disconnected'' []);
                   State_Monad.return (Exited 0) }
                 else State_Monad.return (Ret 0) } });
       on_ret e (\<lambda>v. if v < 0 then State_Monad.return (Ret v) else do {
         e \<leftarrow> read_receiver n pipe0;
         on_ret e (\<lambda>v. if v < 0 then err_out ''read_receiver'' else State_Monad.return NoValue) }) } }"

text \<open>Receiving until nothing is there: a datagram that starts with a NUL byte also stops it. The
  result of \<open>recvfrom\<close> is not looked at.\<close>

primrec receiver :: "nat \<Rightarrow> int \<Rightarrow> (cli, ret) state" where
  "receiver 0 pipe1 = State_Monad.return Running"
| "receiver (Suc n) pipe1 = do {
     s \<leftarrow> State_Monad.get;
     r \<leftarrow> sys (Recvfrom (csk s) BUFSZ True);
     State_Monad.update (hear_update (\<lambda>h. if val r < 0 then h else peer r));
     let buffer_rec = (if val r < 0 then replicate BUFSZ nul
                       else received (replicate BUFSZ nul) BUFSZ r);
     if hd buffer_rec = nul then State_Monad.return (Ret 0)
     else do {
       w \<leftarrow> sys (Write pipe1 buffer_rec);
       if val w < 0 then err_out ''write data_pipe[1]'' else receiver n pipe1 } }"

definition terminal_settings :: "('a proc_scheme, unit) state" where
  "terminal_settings = do {
     _ \<leftarrow> sys (Sys ''tcgetattr'' [I 0]);
     _ \<leftarrow> sys (Sys ''tcsetattr -ISIG'' [I 0]);
     State_Monad.return () }"

definition first_connect :: "(cli, ret) state" where
  "first_connect = do {
     r \<leftarrow> sys (Sys ''socket'' [S ''SOCK_DGRAM'']);
     State_Monad.update (csk_update (\<lambda>_. val r));
     if val r < 0 then err_out ''socket sk''
     else do {
       _ \<leftarrow> gen_id;
       s \<leftarrow> State_Monad.get;
       let buffer = snprintf_to BUFSZ (replicate BUFSZ nul) (''!connect!'' @ cstr (cid s));
       r \<leftarrow> sys (Bind (csk s) (hear s));
       if val r < 0 then err_out ''bind sk''
       else do {
         r \<leftarrow> sys (Sys ''getsockname'' [I (csk s)]);
         _ \<leftarrow> sys (Printf ''client receiver is bind on port %d'' [I (fst (snd (peer r)))]);
         State_Monad.update (hear_update (\<lambda>_. peer r));
         r \<leftarrow> sys (Sendto (csk s) (cstr buffer) (srv_name s));
         if val r < 0 then err_out ''sending first msg''
         else do {
           r \<leftarrow> sys (Recvfrom (csk s) 1 False);
           if val r < 0 then err_out ''getting key''
           else if bytes r = [] then State_Monad.return (Fault Indeterminate)
           else case gen_open_key_client dh_g dh_b dh_p of
             Inl e \<Rightarrow> State_Monad.return (Fault e)
           | Inr B \<Rightarrow> do {
               State_Monad.update (hear_update (\<lambda>_. peer r));
               let A = hd (bytes r);
               let buffer = snprintf_to BUFSZ (replicate BUFSZ nul) (cstr (cid s) @ [B]);
               w \<leftarrow> sys (Sendto (csk s) buffer (srv_name s));
               if val w < 0 then err_out ''sending key''
               else case gen_close_key_client A dh_b dh_p of
                 Inl e \<Rightarrow> State_Monad.return (Fault e)
               | Inr k \<Rightarrow> do {
                   State_Monad.update (CK_update (\<lambda>_. k));
                   State_Monad.return (Ret 0) } } } } } }"

text \<open>The two endless loops of \<open>main\<close>, \<open>m\<close> rounds of them.\<close>

primrec receiver_loop :: "nat \<Rightarrow> nat \<Rightarrow> int \<Rightarrow> (cli, ret) state" where
  "receiver_loop 0 n pipe1 = State_Monad.return Running"
| "receiver_loop (Suc m) n pipe1 = do {
     e \<leftarrow> receiver n pipe1;
     on_ret e (\<lambda>v. if v < 0 then err_out ''receiver'' else receiver_loop m n pipe1) }"

primrec sender_loop :: "nat \<Rightarrow> nat \<Rightarrow> buf \<Rightarrow> int \<Rightarrow> int \<Rightarrow> (cli, ret) state" where
  "sender_loop 0 n behind pid pipe0 = State_Monad.return Running"
| "sender_loop (Suc m) n behind pid pipe0 = do {
     e \<leftarrow> sender n behind pid pipe0;
     on_ret e (\<lambda>v. if v < 0 then err_out ''sender'' else sender_loop m n behind pid pipe0) }"

definition main_client :: "nat \<Rightarrow> nat \<Rightarrow> buf \<Rightarrow> string list \<Rightarrow> (cli, ret) state" where
  "main_client m n behind argv = (case argv of
       a0 # a1 # _ \<Rightarrow> do {
         _ \<leftarrow> terminal_settings;
         State_Monad.update (\<lambda>s. s\<lparr>srv_name := (2, htons PORT, 0), hear := (2, 0, 0)\<rparr>);
         r \<leftarrow> sys Pipe;
         let (pipe0, pipe1, _) = peer r;
         r \<leftarrow> sys (Sys ''inet_aton'' [S a1]);
         if val r = 0 then err_out ''Inputted IP-Adress''
         else do {
           State_Monad.update (srv_name_update (\<lambda>_. (2, htons PORT, snd (snd (peer r)))));
           e \<leftarrow> first_connect;
           on_ret e (\<lambda>v. if v < 0 then err_out ''first connect'' else do {
             r \<leftarrow> sys Fork;
             if val r = 0 then receiver_loop m n pipe1
             else do {
               _ \<leftarrow> sys (Sys ''signal'' [S ''SIGINT'', S ''interrupted'']);
               sender_loop m n behind (val r) pipe0 } }) } }
     | _ \<Rightarrow> do { _ \<leftarrow> sys (Printf ''argc < 2'' []); State_Monad.return (Ret (- 1)) })"

end
