(* ===== verification/TcpClient.thy ===== *)
theory TcpClient
  imports UdpClient
begin

section \<open>The stream client: \<open>udp/tcp_client.c\<close>\<close>

record tcli = proc +
  tsk :: int
  TK :: char

text \<open>\<open>BUFSZ\<close> bytes are sent from a literal of five; the bytes behind it are unknown.\<close>

definition interrupted_tcp :: "buf \<Rightarrow> (tcli, ret) state" where
  "interrupted_tcp behind = do {
     s \<leftarrow> State_Monad.get;
     r \<leftarrow> sys (Write (tsk s) (take BUFSZ (''quit'' @ nul # behind)));
     _ \<leftarrow> (if val r < 0 then sys (Perror ''write'') else State_Monad.return r);
     State_Monad.return (Exited 0) }"

primrec answers_tcp :: "nat \<Rightarrow> (tcli, ret) state" where
  "answers_tcp 0 = State_Monad.return Running"
| "answers_tcp (Suc n) = do {
     s \<leftarrow> State_Monad.get;
     p \<leftarrow> sys (Poll (tsk s));
     if val p = 0 then State_Monad.return NoValue
     else if pollin p then do {
       r \<leftarrow> sys (Read (tsk s) BUFSZ);
       if val r < 0 then err_out ''read from sk''
       else do {
         w \<leftarrow> sys (Write 1 (crypto (TK s) (received (replicate BUFSZ nul) BUFSZ r)));
         if val w < 0 then err_out ''write'' else answers_tcp n } }
     else err_out ''!POLLIN'' }"

definition receiver_tcp :: "nat \<Rightarrow> (tcli, ret) state" where
  "receiver_tcp n = do {
     r \<leftarrow> sys (Read 0 BUFSZ);
     if val r < 0 then err_out ''read''
     else do {
       s \<leftarrow> State_Monad.get;
       let buffer = crypto (TK s) (received (replicate BUFSZ nul) BUFSZ r);
       w \<leftarrow> sys (Write (tsk s) buffer);
       if val w < 0 then err_out ''write''
       else do {
         let buffer = crypto (TK s) buffer;
         if strncmp_eq 4 buffer ''quit'' then do {
           _ \<leftarrow> sys (Printf ''server disconnected'' []);
           State_Monad.return (Exited 0) }
         else answers_tcp n } } }"

primrec tcp_loop :: "nat \<Rightarrow> nat \<Rightarrow> (tcli, ret) state" where
  "tcp_loop 0 n = State_Monad.return Running"
| "tcp_loop (Suc m) n = do {
     e \<leftarrow> receiver_tcp n;
     on_ret e (\<lambda>v. if v < 0 then err_out ''receiver'' else tcp_loop m n) }"

text \<open>\<open>main\<close> uses \<open>argv[1]\<close> without looking at \<open>argc\<close>; the key exchange is one byte each way, and
  a server that closes early leaves the client's own key in \<open>temp\<close>.\<close>

definition main_tcp_client :: "nat \<Rightarrow> nat \<Rightarrow> string list \<Rightarrow> (tcli, ret) state" where
  "main_tcp_client m n argv = do {
     _ \<leftarrow> terminal_settings;
     case gen_open_key_client dh_g dh_b dh_p of
       Inl e \<Rightarrow> State_Monad.return (Fault e)
     | Inr B \<Rightarrow> do {
         r \<leftarrow> sys (Sys ''socket'' [S ''SOCK_STREAM'']);
         State_Monad.update (tsk_update (\<lambda>_. val r));
         if val r < 0 then err_out ''socket''
         else case argv of
           a0 # a1 # _ \<Rightarrow> do {
             s \<leftarrow> State_Monad.get;
             r \<leftarrow> sys (Sys ''inet_aton'' [S a1]);
             if val r = 0 then err_out ''Inputted IP-Adress''
             else do {
               r \<leftarrow> sys (Sys ''connect'' [I (tsk s), I (htons PORT), I (snd (snd (peer r)))]);
               if val r < 0 then do {
                 _ \<leftarrow> sys (Perror ''connect'');
                 _ \<leftarrow> sys (Close (tsk s));
                 State_Monad.return (Ret (- 1)) }
               else do {
                 w \<leftarrow> sys (Write (tsk s) [B]);
                 if val w < 0 then err_out ''write hello msg''
                 else do {
                   r \<leftarrow> sys (Read (tsk s) 1);
                   if val r < 0 then err_out ''read''
                   else case gen_close_key_client (hd (received [B] 1 r)) dh_b dh_p of
                     Inl e \<Rightarrow> State_Monad.return (Fault e)
                   | Inr k \<Rightarrow> do {
                       State_Monad.update (TK_update (\<lambda>_. k));
                       _ \<leftarrow> sys (Sys ''signal'' [S ''SIGINT'', S ''interrupted'']);
                       tcp_loop m n } } } } }
         | _ \<Rightarrow> State_Monad.return (Fault Null_deref) } }"

end
