(* ===== verification/ChatCodec.thy ===== *)
theory ChatCodec
  imports Server TcpClient
begin

section \<open>What becomes of a line between client and server\<close>

text \<open>
  The lemmas that follow a buffer through the client's \<open>sender\<close>, the server's \<open>decypher\<close> and the
  sub-process: the cipher turns the zeros behind a line into key bytes and every key byte of the
  line into a zero, where the string functions of both sides stop.
\<close>

abbreviation zeros :: "nat \<Rightarrow> buf" where
  "zeros n \<equiv> replicate n nul"

lemma nul_eq_xor: "nul = xor_char c k \<longleftrightarrow> c = k"
  using xor_char_eq_nul_iff [of c k] by auto

lemma cstr_xor:
  "cstr (map (\<lambda>c. xor_char c k) b) = map (\<lambda>c. xor_char c k) (takeWhile (\<lambda>c. c \<noteq> k) b)"
  by (induction b) (simp_all add: c_string xor_char_eq_nul_iff cstr_def)

lemma xor_xor [simp]: "map (\<lambda>c. xor_char c k) (map (\<lambda>c. xor_char c k) b) = b"
  by (simp add: o_def)

lemma map_xor_zeros [simp]: "map (\<lambda>c. xor_char c k) (zeros n) = replicate n k"
  by simp

lemma strcpy_zeros: "strlen s < n \<Longrightarrow> strcpy (zeros n) s = zbuf n (cstr s)"
  by (simp add: strcpy_def write_at_def zbuf_def strlen_def)
    (metis Suc_diff_Suc replicate_Suc)

lemma received_zeros:
  "length (bytes r) \<le> n \<Longrightarrow> received (zeros n) n r = zbuf n (bytes r)"
  by (simp add: received_def write_at_def zbuf_def)

lemma write_at_0: "write_at b 0 s = s @ drop (length s) b"
  by (simp add: write_at_def)

lemma memset0_all: "length b = n \<Longrightarrow> memset0 n b = zeros n"
  by (simp add: memset0_def write_at_def)

text \<open>The first \<open>BUFSZ\<close> bytes of the datagram of a line.\<close>

lemma take_send_text:
  assumes "length (cstr ident) = 9"
  shows "take BUFSZ (send_text ident b) = zbuf BUFSZ (cstr ident @ take 246 (cstr b))"
proof -
  let ?t = "cstr ident @ take 246 (cstr b)"
  have "take (BUFSZ - 1) (cstr ident @ cstr b) = ?t" using assms by (simp add: BUFSZ_def)
  then have "send_text ident b = ?t @ nul # zeros (BUFSZ + IDSZ - (length ?t + 1))"
    using assms by (simp add: send_text_def snprintf_to_def write_at_0)
  moreover have l: "length ?t \<le> 255" using assms by simp
  ultimately have "take BUFSZ (send_text ident b) = ?t @ take (BUFSZ - length ?t) (nul # zeros (BUFSZ + IDSZ - (length ?t + 1)))"
    using assms by (simp add: BUFSZ_def)
  also have "take (BUFSZ - length ?t) (nul # zeros (BUFSZ + IDSZ - (length ?t + 1))) = zeros (BUFSZ - length ?t)"
  proof -
    have "nul # zeros (BUFSZ + IDSZ - (length ?t + 1)) = zeros (Suc (BUFSZ + IDSZ - (length ?t + 1)))" by simp
    moreover have "BUFSZ - length ?t \<le> Suc (BUFSZ + IDSZ - (length ?t + 1))" using l by simp
    ultimately show ?thesis by (metis min.absorb1 take_replicate)
  qed
  finally show ?thesis using l assms by (simp add: zbuf_def BUFSZ_def)
qed

text \<open>What \<open>decypher\<close> takes out of it.\<close>

lemma decypher_text:
  assumes "length ident = 9" "nul \<notin> set ident" "nul \<notin> set t" "length t \<le> 246"
  shows "decypher (zbuf (BUFSZ + IDSZ) (zbuf BUFSZ (ident @ t))) = Inr (atoi ident, zbuf BUFSZ ident, zbuf BUFSZ t)"
proof -
  let ?b = "zbuf (BUFSZ + IDSZ) (zbuf BUFSZ (ident @ t))"
  have b: "?b = ident @ t @ nul # zeros (BUFSZ + IDSZ - length ident - length t - 1)"
  proof -
    have "zeros (BUFSZ - (9 + length t)) @ zeros IDSZ = nul # zeros (BUFSZ + IDSZ - 9 - length t - 1)"
      using assms(4) by (simp add: BUFSZ_def IDSZ_def flip: replicate_add replicate_Suc)
    then show ?thesis using assms by (simp add: zbuf_def BUFSZ_def IDSZ_def)
  qed
  have rest: "drop (IDSZ - 1) ?b = t @ nul # zeros (BUFSZ + IDSZ - length ident - length t - 1)"
    unfolding b using assms by (simp add: IDSZ_def)
  then have c: "cstr (drop (IDSZ - 1) ?b) = t" using assms(3) by (simp only:) (rule cstr_append_nul)
  have "strncpy (zeros BUFSZ) ?b (IDSZ - 1) = zbuf BUFSZ ident"
    unfolding b using assms(1,2)
    by (simp add: strncpy_def IDSZ_def cstr_no_nul write_at_0 zbuf_def BUFSZ_def)
  moreover have "atoi (zbuf BUFSZ ident) = atoi ident"
    by (rule atoi_cstr) (simp add: cstr_zbuf cstr_no_nul assms BUFSZ_def)
  moreover have "strcpy (zeros BUFSZ) (drop (IDSZ - 1) ?b) = zbuf BUFSZ t"
    using strcpy_zeros [of "drop (IDSZ - 1) ?b" BUFSZ] assms(4) c by (simp add: strlen_def BUFSZ_def)
  ultimately show ?thesis
    using assms(4) c by (simp add: decypher_def strlen_def Let_def BUFSZ_def)
qed

text \<open>
  \<open>arrived k line\<close>: the buffer the sub-process hands to the executor for a line. It holds the line up
  to its first key byte, at most 246 characters of it, and key bytes behind.
\<close>

definition survives :: "char \<Rightarrow> string \<Rightarrow> string" where
  "survives k line = take 246 (takeWhile (\<lambda>c. c \<noteq> k) (zbuf BUFSZ line))"

definition arrived :: "char \<Rightarrow> string \<Rightarrow> buf" where
  "arrived k line = survives k line @ replicate (BUFSZ - length (survives k line)) k"

definition payload :: "char \<Rightarrow> string \<Rightarrow> buf" where
  "payload k line = zbuf BUFSZ (map (\<lambda>c. xor_char c k) (survives k line))"

lemma length_survives: "length (survives k line) \<le> 246"
  by (simp add: survives_def)

lemma take_cstr_crypto:
  "take 246 (cstr (crypto k (zbuf BUFSZ line))) = map (\<lambda>c. xor_char c k) (survives k line)"
  by (simp add: crypto_short cstr_xor survives_def take_map)

lemma survives_no_key: "k \<notin> set (survives k line)"
  by (auto simp: survives_def dest!: in_set_takeD set_takeWhileD)

lemma no_nul_xor_survives: "nul \<notin> set (map (\<lambda>c. xor_char c k) (survives k line))"
  using survives_no_key [of k line] by (auto simp: nul_eq_xor)

lemma crypto_payload: "crypto k (payload k line) = arrived k line"
  using length_survives [of k line]
  by (simp add: payload_def arrived_def crypto_short zbuf_def BUFSZ_def map_idI)

lemma decypher_datagram:
  assumes "length (cstr ident) = 9"
  shows "decypher (zbuf (BUFSZ + IDSZ) (take BUFSZ (send_text ident (crypto k (zbuf BUFSZ line))))) =
         Inr (atoi ident, zbuf BUFSZ (cstr ident), payload k line)"
proof -
  have "atoi (cstr ident) = atoi ident" by (rule atoi_cstr) simp
  then show ?thesis
    unfolding take_send_text [OF assms] take_cstr_crypto payload_def
    using decypher_text [OF assms _ no_nul_xor_survives] length_survives by simp
qed

text \<open>A line without a key byte.\<close>

lemma survives_clean:
  assumes "k \<notin> set line" "k \<noteq> nul" "length line \<le> 246"
  shows "survives k line = zbuf 246 line"
proof -
  have "takeWhile (\<lambda>c. c \<noteq> k) (zbuf BUFSZ line) = zbuf BUFSZ line"
    using assms(1,2) by (intro takeWhile_all) (auto simp: zbuf_def dest: in_set_takeD)
  then show ?thesis using assms(3) by (simp add: survives_def zbuf_def BUFSZ_def min_def)
qed

lemma arrived_clean:
  assumes "k \<notin> set line" "k \<noteq> nul" "length line \<le> 246"
  shows "arrived k line = zbuf 246 line @ replicate 10 k"
  by (simp add: arrived_def survives_clean [OF assms] BUFSZ_def)

text \<open>A line with one: what is in front of it.\<close>

lemma survives_cut:
  assumes "k \<notin> set pre" "length pre \<le> 246"
  shows "survives k (pre @ k # post) = pre"
proof -
  have "takeWhile (\<lambda>c. c \<noteq> k) (zbuf BUFSZ (pre @ k # post)) = pre"
  proof -
    have "zbuf BUFSZ (pre @ k # post) = pre @ k # (take (BUFSZ - length pre - 1) post @
        zeros (BUFSZ - length (pre @ k # post)))"
      using assms(2) by (simp add: zbuf_def BUFSZ_def take_Cons')
    then show ?thesis using assms(1) by (simp only:) (rule takeWhile_append_stop, auto)
  qed
  then show ?thesis using assms(2) by (simp add: survives_def)
qed

lemma arrived_cut:
  assumes "k \<notin> set pre" "length pre \<le> 246"
  shows "arrived k (pre @ k # post) = pre @ replicate (BUFSZ - length pre) k"
  by (simp add: arrived_def survives_cut [OF assms])

end
