(* ===== verification/ChatProps.thy ===== *)
theory ChatProps
  imports ChatCodec
begin

section \<open>Properties of the chat programs\<close>

text \<open>The calls a run has made, and those among them that write to descriptors or send.\<close>

definition calls_of :: "('a proc_scheme, 'b) state \<Rightarrow> 'a proc_scheme \<Rightarrow> call list" where
  "calls_of m s = drop (length (trace s)) (trace (snd (run_state m s)))"

fun is_output :: "call \<Rightarrow> bool" where
  "is_output (Sendto _ _ _) = True"
| "is_output (Write _ _) = True"
| "is_output _ = False"

definition datagram :: "buf \<Rightarrow> char \<Rightarrow> string \<Rightarrow> buf" where
  "datagram ident k line = take BUFSZ (send_text ident (crypto k (zbuf BUFSZ line)))"

lemma length_datagram: "length (cstr ident) = 9 \<Longrightarrow> length (datagram ident k line) = BUFSZ"
  by (simp add: datagram_def take_send_text)

text \<open>An id that \<open>gen_id\<close> can have made: nine characters, not a greeting and not the text of -1.\<close>

definition good_id :: "buf \<Rightarrow> bool" where
  "good_id ident \<longleftrightarrow> length (cstr ident) = 9 \<and> hd ident \<noteq> CHR ''!'' \<and> atoi ident \<noteq> - 1"

lemma cstr_hd: "cstr b \<noteq> [] \<Longrightarrow> hd (cstr b) = hd b"
  by (cases b) (auto simp: c_string)

lemma not_greeting:
  assumes "good_id ident" "length t \<le> 246"
  shows "\<not> strcmp_eq (zbuf (BUFSZ + IDSZ) (zbuf BUFSZ (cstr ident @ t))) hello"
    "\<not> strncmp_eq (length connect_prefix) (zbuf (BUFSZ + IDSZ) (zbuf BUFSZ (cstr ident @ t))) connect_prefix"
proof -
  obtain c cs where c: "cstr ident = c # cs" "c \<noteq> CHR ''!''"
    using assms(1) cstr_hd [of ident] by (cases "cstr ident") (auto simp: good_id_def)
  then have "c \<noteq> nul" by (metis list.set_intros(1) nul_notin_cstr)
  with c show "\<not> strcmp_eq (zbuf (BUFSZ + IDSZ) (zbuf BUFSZ (cstr ident @ t))) hello"
    "\<not> strncmp_eq (length connect_prefix) (zbuf (BUFSZ + IDSZ) (zbuf BUFSZ (cstr ident @ t))) connect_prefix"
    by (simp_all add: strcmp_eq_def strncmp_eq_def zbuf_def BUFSZ_def IDSZ_def c_string hello_def connect_prefix_def)
qed

text \<open>The server gets a datagram of a client whose slot is \<open>v\<close>.\<close>

definition gets :: "srv \<Rightarrow> buf \<Rightarrow> bool" where
  "gets s d \<longleftrightarrow> bytes (env s (length (trace s)) (Recvfrom (sk s) (BUFSZ + IDSZ) False)) = d"

definition knows :: "srv \<Rightarrow> buf \<Rightarrow> nat \<Rightarrow> int \<Rightarrow> int \<Rightarrow> bool" where
  "knows s ident v fd0 fd1 \<longleftrightarrow>
     good_id ident \<and> find_id (atoi ident) (mas s) = int v \<and> data_pipe s v = Some (fd0, fd1)"

lemma server_message:
  assumes "calls_succeed s" "knows s ident v fd0 fd1"
    and "gets s (zbuf BUFSZ (cstr ident @ t))" "nul \<notin> set t" "length t \<le> 246"
  shows "\<exists>s'. run_state (server_handler n exec) s = (Ret 0, s') \<and> data_pipe s' = data_pipe s \<and>
     mas s' = (if strncmp_eq 6 (zbuf BUFSZ t) quit_line then (mas s)(v := 0) else mas s) \<and>
     filter is_output (calls_of (server_handler n exec) s) = [Write fd1 (zbuf BUFSZ t)]"
proof -
  let ?d = "zbuf BUFSZ (cstr ident @ t)"
  let ?r = "env s (length (trace s)) (Recvfrom (sk s) (BUFSZ + IDSZ) False)"
  have g: "good_id ident" "length (cstr ident) = 9" using assms(2) by (simp_all add: knows_def good_id_def)
  have b: "received (zeros (BUFSZ + IDSZ)) (BUFSZ + IDSZ) ?r = zbuf (BUFSZ + IDSZ) ?d"
    using assms(3) by (subst received_zeros) (simp_all add: gets_def)
  have "atoi (cstr ident) = atoi ident" by (rule atoi_cstr) simp
  then have de: "decypher (zbuf (BUFSZ + IDSZ) ?d) = Inr (atoi ident, zbuf BUFSZ (cstr ident), zbuf BUFSZ t)"
    using decypher_text [OF g(2) nul_notin_cstr assms(4,5)] by simp
  have nn: "\<not> val (env s k c) < 0" for k c using calls_succeed_not_neg [OF assms(1)] .
  have "val (env s k c) \<noteq> - 1" for k c using calls_succeedD [OF assms(1), of k c] by simp
  then show ?thesis
    using assms(2) b nn not_greeting [OF g(1) assms(5)]
    by (simp add: server_handler_def master_handler_def de knows_def good_id_def run_simps log_defs Let_def calls_of_def)
qed

text \<open>The calls of a run only get more.\<close>

lemma read_receiver_grows: "\<exists>ts. trace (snd (run_state (read_receiver n p) s)) = trace s @ ts"
proof (induction n arbitrary: s)
  case 0
  then show ?case by (simp add: run_simps)
next
  case (Suc n)
  have "\<exists>ts. trace (snd (run_state (read_receiver n p) (s\<lparr>trace := t @ u\<rparr>))) = t @ ts" for t u
    using Suc [of "s\<lparr>trace := t @ u\<rparr>"] by auto
  then show ?case by (auto simp: run_simps log_defs Let_def split: prod.splits)
qed

text \<open>A line that is not taken for \<open>broadcast\<close> goes out as one datagram.\<close>

definition types_line :: "cli \<Rightarrow> string \<Rightarrow> bool" where
  "types_line c line \<longleftrightarrow> bytes (env c (length (trace c)) (Read 0 BUFSZ)) = line \<and> length line \<le> BUFSZ \<and>
     \<not> strncmp_eq 9 (crypto (CK c) (zbuf BUFSZ line)) ''broadcast''"

lemma trace_after_on_ret:
  assumes "\<And>v. \<exists>ts. trace (snd (run_state (f v) s)) = trace s @ ts"
  shows "\<exists>ts. trace (snd (run_state (on_ret e f) s)) = trace s @ ts"
  using assms by (cases e) (auto simp: run_simps)

lemma sender_sends:
  assumes "calls_succeed c" "types_line c line"
  shows "\<exists>ts. calls_of (sender n behind pid pipe0) c =
     [Read 0 BUFSZ, Sendto (csk c) (datagram (cid c) (CK c) line) (srv_name c)] @ ts"
proof -
  let ?r = "env c (length (trace c)) (Read 0 BUFSZ)"
  let ?c = "c\<lparr>trace := trace c @ [Read 0 BUFSZ, Sendto (csk c) (datagram (cid c) (CK c) line) (srv_name c)]\<rparr>"
  have b: "received (zeros BUFSZ) BUFSZ ?r = zbuf BUFSZ line"
    using assms(2) by (subst received_zeros) (simp_all add: types_line_def)
  have nn: "\<not> val (env c k e) < 0" for k e using calls_succeed_not_neg [OF assms(1)] .
  obtain ts where "trace (snd (run_state (read_receiver n pipe0) ?c)) = trace ?c @ ts"
    using read_receiver_grows by blast
  then show ?thesis
    using assms(2) nn b
    by (cases "run_state (read_receiver n pipe0) ?c"; cases "fst (run_state (read_receiver n pipe0) ?c)")
      (auto simp: sender_def types_line_def run_simps log_defs Let_def calls_of_def datagram_def)
qed


text \<open>A client and a server on which every call succeeds; the one reads a line, the other a datagram.\<close>

definition quiet :: "buf \<Rightarrow> nat \<Rightarrow> call \<Rightarrow> answer" where
  "quiet b = (\<lambda>_ _. \<lparr>val = 1, bytes = b, peer = (7, 8, 9), pollin = False\<rparr>)"

definition demo_ident :: buf where
  "demo_ident = ''123456789'' @ [nul]"

definition demo_cli :: "string \<Rightarrow> cli" where
  "demo_cli line = \<lparr>env = quiet line, trace = [], csk = 3, srv_name = (2, 0, 0),
     cid = demo_ident, CK = CHR ''a'', hear = (0, 0, 0)\<rparr>"

definition demo_srv :: "buf \<Rightarrow> srv" where
  "demo_srv d = \<lparr>env = quiet d, trace = [], K = nul, bash_work = 0, bash_pid = 0, num = 0,
     mas = (\<lambda>_. 0)(0 := 123456789), data_pipe = (\<lambda>_. None)(0 := Some (7, 8)), name = (0, 0, 0), sk = 3\<rparr>"

lemma quiet_simps [simp]:
  "val (quiet b k e) = 1" "bytes (quiet b k e) = b" "peer (quiet b k e) = (7, 8, 9)" "\<not> pollin (quiet b k e)"
  by (simp_all add: quiet_def)

lemma demo_simps [simp]:
  "env (demo_cli l) = quiet l" "trace (demo_cli l) = []" "csk (demo_cli l) = 3"
  "CK (demo_cli l) = CHR ''a''" "srv_name (demo_cli l) = (2, 0, 0)" "cid (demo_cli l) = demo_ident"
  "env (demo_srv d) = quiet d" "trace (demo_srv d) = []" "sk (demo_srv d) = 3"
  "mas (demo_srv d) = (\<lambda>_. 0)(0 := 123456789)" "data_pipe (demo_srv d) = (\<lambda>_. None)(0 := Some (7, 8))"
  by (simp_all add: demo_cli_def demo_srv_def)

lemma demo_succeeds: "calls_succeed (demo_cli l)" "calls_succeed (demo_srv d)"
  by (simp_all add: calls_succeed_def)

lemma demo_id: "cstr demo_ident = ''123456789''" "atoi demo_ident = 123456789" "hd demo_ident = CHR ''1''"
  by (simp_all add: demo_ident_def c_string atoi_def isspace_def digits_val_def isdigit_def digit_val_def)

lemma demo_knows: "knows (demo_srv d) demo_ident 0 7 8"
proof -
  have "find_id 123456789 ((\<lambda>_. 0)(0 := 123456789)) = 0"
    by (simp add: find_id_def find_from.simps [of _ _ 0] MAX_CLIENTS_def)
  then show ?thesis
    using demo_id by (simp add: knows_def good_id_def)
qed

text \<open>C8: a line of at most 246 characters without the key byte that a client types goes out as one
  datagram; the server writes it, and nothing else, to the pipe of this client, and the
  sub-process, with the same key, recovers the line, with zeros up to byte 246 and ten key bytes
  behind.\<close>
theorem line_reaches_sub_process:
  assumes "calls_succeed c" "types_line c line" "CK c \<notin> set line" "CK c \<noteq> nul" "length line \<le> 246"
    and "calls_succeed s" "knows s (cid c) v fd0 fd1" "gets s d" "d = datagram (cid c) (CK c) line"
  shows "Sendto (csk c) d (srv_name c) \<in> set (calls_of (sender n behind pid pipe0) c) \<and>
         (\<exists>p. filter is_output (calls_of (server_handler m exec) s) = [Write fd1 p] \<and>
              crypto (CK c) p = zbuf 246 line @ replicate 10 (CK c))"
proof -
  have l: "length (cstr (cid c)) = 9" using assms(7) by (simp add: knows_def good_id_def)
  have d: "d = zbuf BUFSZ (cstr (cid c) @ map (\<lambda>x. xor_char x (CK c)) (survives (CK c) line))"
    unfolding assms(9) datagram_def take_send_text [OF l] take_cstr_crypto ..
  have "filter is_output (calls_of (server_handler m exec) s) = [Write fd1 (payload (CK c) line)]"
    using server_message [OF assms(6,7) assms(8)[unfolded d] no_nul_xor_survives] length_survives
    by (auto simp: payload_def)
  moreover have "crypto (CK c) (payload (CK c) line) = zbuf 246 line @ replicate 10 (CK c)"
    using crypto_payload arrived_clean [OF assms(3-5)] by simp
  moreover have "Sendto (csk c) d (srv_name c) \<in> set (calls_of (sender n behind pid pipe0) c)"
    using sender_sends [OF assms(1,2), of n behind pid pipe0] assms(9) by auto
  ultimately show ?thesis by blast
qed

definition ls_line :: string where
  "ls_line = ''ls'' @ [CHR 0x0A]"

lemma demo_types: "types_line (demo_cli ls_line) ls_line"
  by (simp add: types_line_def ls_line_def zbuf_def BUFSZ_def strncmp_eq_def crypto_def c_string)

theorem line_reaches_sub_process_witness:
  "\<exists>p. filter is_output (calls_of (server_handler 5 (execution 5 Udp))
        (demo_srv (datagram demo_ident (CHR ''a'') ls_line))) = [Write 8 p] \<and>
      crypto (CHR ''a'') p = zbuf 246 ls_line @ replicate 10 (CHR ''a'')"
proof -
  let ?d = "datagram demo_ident (CHR ''a'') ls_line"
  have k: "CK (demo_cli ls_line) \<notin> set ls_line" "CK (demo_cli ls_line) \<noteq> nul" "length ls_line \<le> 246"
    by (simp_all add: ls_line_def)
  have kn: "knows (demo_srv ?d) (cid (demo_cli ls_line)) 0 7 8" using demo_knows by simp
  have g: "gets (demo_srv ?d) ?d" by (simp add: gets_def)
  have d: "?d = datagram (cid (demo_cli ls_line)) (CK (demo_cli ls_line)) ls_line" by simp
  show ?thesis
    using conjunct2 [OF line_reaches_sub_process [OF demo_succeeds(1) demo_types k demo_succeeds(2) kn g d]]
    by (simp only: demo_simps)
qed

text \<open>C25: when a line contains the key byte, the rest of it is lost, whatever it is: the sub-process
  finds the part in front of it, filled up with key bytes to the end of its buffer without a
  terminating NUL.\<close>
theorem key_byte_cuts_line:
  assumes "length (cstr ident) = 9" "k \<notin> set pre" "nul \<notin> set pre" "k \<noteq> nul" "length pre \<le> 246"
  shows "\<exists>p. decypher (zbuf (BUFSZ + IDSZ) (datagram ident k (pre @ k # post))) =
             Inr (atoi ident, zbuf BUFSZ (cstr ident), p) \<and>
             crypto k p = pre @ replicate (BUFSZ - length pre) k \<and> nul \<notin> set (crypto k p)"
  using decypher_datagram [OF assms(1), of k "pre @ k # post"] crypto_payload [of k "pre @ k # post"]
    arrived_cut [OF assms(2,5), of post] assms(3,4)
  by (auto simp: datagram_def)

theorem key_byte_cuts_line_witness:
  "\<exists>p. decypher (zbuf (BUFSZ + IDSZ) (datagram demo_ident (CHR ''a'') ''cat README'')) =
        Inr (123456789, zbuf BUFSZ ''123456789'', p) \<and> crypto (CHR ''a'') p = ''c'' @ replicate 255 (CHR ''a'')"
  using key_byte_cuts_line [of demo_ident "CHR ''a''" "''c''" "''t README''"] demo_id
  by (auto simp: BUFSZ_def)

end
