(* ===== verification/ChatId.thy ===== *)
theory ChatId
  imports ChatProps
begin

section \<open>Ids, connecting and leaving\<close>

text \<open>The ids \<open>gen_id\<close> makes, the server's side of a connect, and what a quitting client leaves behind.\<close>

lemma digit_val_ge: "isdigit c \<Longrightarrow> 0 \<le> digit_val c"
proof -
  assume "isdigit c"
  then have "48 \<le> (of_char c :: nat)" by (simp add: isdigit_def)
  then have "48 \<le> int (of_char c)" by linarith
  moreover have "int (of_char c) = (of_char c :: int)" by (rule of_nat_of_char)
  ultimately show ?thesis by (simp add: digit_val_def)
qed

lemma digits_lower:
  "list_all isdigit ds \<Longrightarrow> 0 \<le> a \<Longrightarrow> a * 10 ^ length ds \<le> foldl (\<lambda>n c. 10 * n + digit_val c) a ds"
proof (induction ds arbitrary: a)
  case (Cons d ds)
  then have d: "0 \<le> digit_val d" using digit_val_ge by simp
  then have "(10 * a + digit_val d) * 10 ^ length ds \<le> foldl (\<lambda>n c. 10 * n + digit_val c) (10 * a + digit_val d) ds"
    using Cons by simp
  moreover have "a * 10 ^ length (d # ds) \<le> (10 * a + digit_val d) * 10 ^ length ds"
    using d by (simp add: algebra_simps)
  ultimately have "a * 10 ^ length (d # ds) \<le> foldl (\<lambda>n c. 10 * n + digit_val c) (10 * a + digit_val d) ds"
    by (rule order_trans [rotated])
  then show ?case by simp
qed simp

lemma hd_show_nat: "0 < n \<Longrightarrow> 1 \<le> digit_val (hd (show_nat n))"
proof (induction n rule: show_nat.induct)
  case (1 n)
  show ?case
  proof (cases "n < 10")
    case True
    then show ?thesis using 1(2) by (subst show_nat.simps) (simp add: digit_char)
  next
    case False
    then have "0 < n div 10" by simp
    then show ?thesis
      using 1(1) False by (subst show_nat.simps) (simp add: show_nat_nonempty hd_append)
  qed
qed

lemma digits_atoi:
  assumes "list_all isdigit ds" "ds \<noteq> []"
  shows "0 \<le> atoi ds" "atoi (CHR ''-'' # ds) = - atoi ds"
    "atoi ds = foldl (\<lambda>n c. 10 * n + digit_val c) 0 ds"
proof -
  obtain x xs where x: "ds = x # xs" "isdigit x" "list_all isdigit xs" using assms by (cases ds) auto
  have "nul \<notin> set ds" using assms(1) isdigit_not_nul by (auto simp: list_all_iff)
  then have c: "cstr ds = ds" "cstr (CHR ''-'' # ds) = CHR ''-'' # ds" by (simp_all add: cstr_no_nul)
  have t: "takeWhile isdigit ds = ds" using assms(1) by (intro takeWhile_all) (simp add: list_all_iff)
  have s: "dropWhile isspace ds = x # xs" using x isdigit_not_space by simp
  have m: "dropWhile isspace (CHR ''-'' # ds) = CHR ''-'' # ds" by (simp add: isspace_def)
  have dv: "digits_val ds = foldl (\<lambda>n c. 10 * n + digit_val c) 0 ds" by (simp only: digits_val_def t)
  show e: "atoi ds = foldl (\<lambda>n c. 10 * n + digit_val c) 0 ds"
    unfolding atoi_def c s using dv isdigit_not_sign [OF x(2)] by (simp add: x(1))
  show "0 \<le> atoi ds" using digits_lower [OF assms(1), of 0] by (simp add: e)
  show "atoi (CHR ''-'' # ds) = - atoi ds"
    unfolding atoi_def [of "CHR ''-'' # ds"] c m using dv e by simp
qed

lemma isdigit_zero: "isdigit (CHR ''0'')"
  by (simp add: isdigit_def)

lemma id_text_good:
  "length (id_text r) = 9 \<and> nul \<notin> set (id_text r) \<and> hd (id_text r) \<noteq> CHR ''!'' \<and> atoi (id_text r) \<noteq> - 1"
proof (cases "r < 0")
  case False
  let ?n = "show_nat (nat r)"
  have t: "id_text r = take 9 (?n @ replicate 10 (CHR ''0''))"
    using False by (simp add: id_text_def show_int_def IDSZ_def)
  then have d: "list_all isdigit (id_text r)"
    using show_nat_digits [of "nat r"] isdigit_zero by (auto simp: list_all_iff dest!: in_set_takeD)
  have l: "length (id_text r) = 9" unfolding t by simp
  then have ne: "id_text r \<noteq> []" by auto
  then have "isdigit (hd (id_text r))" using d by (cases "id_text r") auto
  then have "hd (id_text r) \<noteq> CHR ''!''" by (auto simp: isdigit_def)
  moreover have "nul \<notin> set (id_text r)" using d isdigit_not_nul by (auto simp: list_all_iff)
  ultimately show ?thesis using digits_atoi(1) [OF d ne] l by simp
next
  case True
  let ?n = "show_nat (nat (- r))" let ?ds = "take 8 (show_nat (nat (- r)) @ replicate 10 (CHR ''0''))"
  have t: "id_text r = CHR ''-'' # ?ds"
    using True by (simp add: id_text_def show_int_def IDSZ_def)
  have d: "list_all isdigit ?ds"
    using show_nat_digits [of "nat (- r)"] isdigit_zero by (auto simp: list_all_iff dest!: in_set_takeD)
  have ne: "?n \<noteq> []" by (rule show_nat_nonempty)
  have one: "1 \<le> digit_val (hd ?n)" using hd_show_nat [of "nat (- r)"] True by simp
  have ds: "?ds = hd ?n # tl ?ds" using ne by (cases ?n) auto
  have "list_all isdigit (tl ?ds)" using d by (subst (asm) ds) simp
  then have "digit_val (hd ?n) * 10 ^ length (tl ?ds) \<le> foldl (\<lambda>n c. 10 * n + digit_val c) (digit_val (hd ?n)) (tl ?ds)"
    using one by (intro digits_lower) auto
  moreover have "length (tl ?ds) = 7" by simp
  moreover have "(2 :: int) \<le> digit_val (hd ?n) * 10 ^ 7" using one by simp
  ultimately have "2 \<le> foldl (\<lambda>n c. 10 * n + digit_val c) (digit_val (hd ?n)) (tl ?ds)"
    by (metis (no_types, lifting) order_trans)
  also have "foldl (\<lambda>n c. 10 * n + digit_val c) (digit_val (hd ?n)) (tl ?ds) =
      foldl (\<lambda>n c. 10 * n + digit_val c) 0 (hd ?n # tl ?ds)" by simp
  also have "\<dots> = foldl (\<lambda>n c. 10 * n + digit_val c) 0 ?ds" by (rule arg_cong [OF ds [symmetric]])
  also have "\<dots> = atoi ?ds" using digits_atoi(3) [OF d] ne by simp
  finally have "2 \<le> atoi ?ds" .
  moreover have "?ds \<noteq> []" using ne by simp
  then have "atoi (id_text r) = - atoi ?ds" unfolding t by (rule digits_atoi(2) [OF d])
  ultimately have "atoi (id_text r) \<noteq> - 1" by linarith
  moreover have "nul \<notin> set ?ds" using d isdigit_not_nul by (auto simp: list_all_iff)
  ultimately show ?thesis by (simp add: t)
qed

lemma gen_id_result:
  assumes "length (cid c) = IDSZ"
  shows "\<exists>c' r. run_state gen_id c = (Ret 0, c') \<and> cid c' = id_text r @ [nul]"
  using assms id_text_good
  by (simp add: gen_id_def run_simps Let_def snprintf_to_def write_at_0 IDSZ_def) metis

lemma id_text_is_good: "good_id (id_text r @ [nul])"
proof -
  have t: "length (id_text r) = 9" "nul \<notin> set (id_text r)" "hd (id_text r) \<noteq> CHR ''!''" "atoi (id_text r) \<noteq> - 1"
    using id_text_good [of r] by simp_all
  then have c: "cstr (id_text r @ [nul]) = id_text r" by (simp add: cstr_append_nul)
  then have "atoi (id_text r @ [nul]) = atoi (id_text r)" using t(2) by (intro atoi_cstr) (simp add: cstr_no_nul)
  moreover have "id_text r \<noteq> []" using t(1) by auto
  ultimately show ?thesis using t c by (simp add: good_id_def)
qed

text \<open>The connect message as the server stores it.\<close>

lemma connect_buffer:
  assumes "good_id ident"
  shows "\<not> strcmp_eq (zbuf (BUFSZ + IDSZ) (connect_prefix @ cstr ident)) hello"
    "strncmp_eq (length connect_prefix) (zbuf (BUFSZ + IDSZ) (connect_prefix @ cstr ident)) connect_prefix"
    "atoi (strncpy (zeros BUFSZ) (drop (length connect_prefix) (zbuf (BUFSZ + IDSZ) (connect_prefix @ cstr ident))) IDSZ) = atoi ident"
proof -
  have l: "length (cstr ident) = 9" using assms by (simp add: good_id_def)
  have z: "zbuf (BUFSZ + IDSZ) (connect_prefix @ cstr ident) = connect_prefix @ cstr ident @ zeros 248"
    using l by (simp add: zbuf_def BUFSZ_def IDSZ_def connect_prefix_def)
  show "\<not> strcmp_eq (zbuf (BUFSZ + IDSZ) (connect_prefix @ cstr ident)) hello"
    "strncmp_eq (length connect_prefix) (zbuf (BUFSZ + IDSZ) (connect_prefix @ cstr ident)) connect_prefix"
    unfolding z by (simp_all add: strcmp_eq_def strncmp_eq_def connect_prefix_def hello_def c_string)
  have "take IDSZ (cstr ident @ zeros 248) = cstr ident @ [nul]"
    using l by (simp add: IDSZ_def)
  then have "strncpy (zeros BUFSZ) (cstr ident @ zeros 248) IDSZ = zbuf BUFSZ (cstr ident)"
    using l replicate_Suc [of 246 nul, symmetric]
    by (simp add: strncpy_def cstr_append_nul write_at_0 zbuf_def BUFSZ_def IDSZ_def del: replicate_Suc)
  moreover have "atoi (zbuf BUFSZ (cstr ident)) = atoi ident"
    using l by (intro atoi_cstr) (simp add: cstr_zbuf BUFSZ_def)
  ultimately show "atoi (strncpy (zeros BUFSZ) (drop (length connect_prefix)
      (zbuf (BUFSZ + IDSZ) (connect_prefix @ cstr ident))) IDSZ) = atoi ident"
    unfolding z by simp
qed

text \<open>C26: every id that \<open>gen_id\<close> makes has nine characters and is neither a greeting nor -1, and when
  the server gets the connect message with it and has room, it enters the id and opens one pipe, whose
  read end and write end, as the call returned them, it keeps in this order under the number that \<open>find\<close>
  gives for the id from then on; the pipes of all other numbers stay as they were, and every other
  client is found as before.\<close>
theorem connect_gives_number:
  assumes "length (cid c) = IDSZ" "ident = cid (snd (run_state gen_id c))"
    and "calls_succeed s" "\<And>k. 0 < val (env s k Fork)" "gets s (connect_prefix @ cstr ident)"
    and "0 \<le> fst (connect_id (atoi ident) (mas s))"
  shows "\<exists>s' v k fd0 fd1 x. run_state (server_handler n exec) s = (Ret 0, s') \<and>
           int v = fst (connect_id (atoi ident) (mas s)) \<and> mas s' = snd (connect_id (atoi ident) (mas s)) \<and>
           length (trace s) \<le> k \<and> k < length (trace s') \<and> trace s' ! k = Pipe \<and>
           filter (\<lambda>e. e = Pipe) (drop (length (trace s)) (trace s')) = [Pipe] \<and>
           peer (env s k Pipe) = (fd0, fd1, x) \<and> data_pipe s' = (data_pipe s)(v := Some (fd0, fd1)) \<and>
           knows s' ident v fd0 fd1 \<and>
           (\<forall>j. j \<notin> {0, atoi ident} \<longrightarrow> find_id j (mas s') = find_id j (mas s))"
proof -
  obtain c' r where "run_state gen_id c = (Ret 0, c')" "cid c' = id_text r @ [nul]"
    using gen_id_result [OF assms(1)] by blast
  then have g: "good_id ident" using assms(2) id_text_is_good by simp
  have nn: "\<not> val (env s k e) < 0" for k e using calls_succeed_not_neg [OF assms(3)] .
  have fk: "val (env s k Fork) \<noteq> 0" for k using assms(4) [of k] by simp
  have l: "length (connect_prefix @ cstr ident) \<le> BUFSZ + IDSZ"
    using g by (simp add: good_id_def connect_prefix_def BUFSZ_def)
  have b: "received (zeros (BUFSZ + IDSZ)) (BUFSZ + IDSZ)
      (env s (length (trace s)) (Recvfrom (sk s) (BUFSZ + IDSZ) False)) =
      zbuf (BUFSZ + IDSZ) (connect_prefix @ cstr ident)"
    using assms(5) l by (subst received_zeros) (simp_all add: gets_def)
  obtain v m where vm: "connect_id (atoi ident) (mas s) = (int v, m)"
    using assms(6) by (metis nonneg_int_cases prod.collapse)
  have f: "find_id (atoi ident) m = int v" using ids.conn_look [OF vm] by simp
  have o: "j \<notin> {0, atoi ident} \<Longrightarrow> find_id j m = find_id j (mas s)" for j
    using ids.conn_other [OF vm, of j] by simp
  let ?k = "Suc (Suc (Suc (Suc (length (trace s)))))"
  obtain fd0 fd1 x where p: "peer (env s ?k Pipe) = (fd0, fd1, x)" by (metis prod_cases3)
  have "\<exists>s'. run_state (server_handler n exec) s = (Ret 0, s') \<and> mas s' = m \<and>
      data_pipe s' = (data_pipe s)(v := Some (fd0, fd1)) \<and>
      (\<exists>c1 c2 c3 c4 c5. trace s' = trace s @ [c1, c2, c3, c4, Pipe, c5] \<and> Pipe \<notin> {c1, c2, c3, c4, c5})"
    using b nn fk vm p connect_buffer [OF g]
    by (auto simp: server_handler_def com_connect_def run_simps log_defs Let_def)
  then obtain s' c1 c2 c3 c4 c5 where s': "run_state (server_handler n exec) s = (Ret 0, s')" "mas s' = m"
      "data_pipe s' = (data_pipe s)(v := Some (fd0, fd1))"
      "trace s' = trace s @ [c1, c2, c3, c4, Pipe, c5]" "Pipe \<notin> {c1, c2, c3, c4, c5}"
    by blast
  have "trace s' ! ?k = Pipe" "length (trace s) \<le> ?k" "?k < length (trace s')"
    "filter (\<lambda>e. e = Pipe) (drop (length (trace s)) (trace s')) = [Pipe]"
    using s'(4,5) by (auto simp: nth_append)
  moreover have "knows s' ident v fd0 fd1" using g f s'(2,3) by (simp add: knows_def)
  ultimately show ?thesis using s'(1-3) vm o p fst_conv snd_conv by metis
qed

definition new_cli :: cli where
  "new_cli = (demo_cli [])\<lparr>cid := zeros IDSZ\<rparr>"

definition new_ident :: buf where
  "new_ident = ''100000000'' @ [nul]"

lemma new_ident_made: "new_ident = cid (snd (run_state gen_id new_cli))"
proof -
  have "id_text 1 = ''100000000''"
  proof -
    have "show_nat (Suc 0) = ''1''" by (simp add: show_nat.simps [of "Suc 0"])
    then show ?thesis by (simp add: id_text_def show_int_def IDSZ_def numeral_eq_Suc)
  qed
  moreover have "cid (snd (run_state gen_id new_cli)) = id_text 1 @ [nul]"
    using id_text_good [of 1]
    by (simp add: new_cli_def gen_id_def run_simps Let_def snprintf_to_def write_at_0 IDSZ_def wrap32_def)
  ultimately show ?thesis by (simp add: new_ident_def)
qed

lemma new_ident_num: "atoi new_ident = 100000000"
  by (simp add: new_ident_def c_string atoi_def isspace_def digits_val_def isdigit_def digit_val_def)

lemma new_ident_room: "fst (connect_id (atoi new_ident) (mas (demo_srv d))) = 1"
  unfolding new_ident_num
  by (simp add: connect_id_def connect_from.simps [of _ _ 0] connect_from.simps [of _ _ "Suc 0"] MAX_CLIENTS_def)

theorem connect_gives_number_witness:
  "\<exists>s' fd0 fd1. run_state (server_handler 5 (execution 5 Udp)) (demo_srv (connect_prefix @ cstr new_ident)) = (Ret 0, s') \<and>
     knows s' new_ident 1 fd0 fd1 \<and>
     data_pipe s' = (data_pipe (demo_srv (connect_prefix @ cstr new_ident)))(1 := Some (fd0, fd1))"
proof -
  let ?s = "demo_srv (connect_prefix @ cstr new_ident)"
  have l: "length (cid new_cli) = IDSZ" by (simp add: new_cli_def)
  have f: "0 < val (env ?s k Fork)" for k by simp
  have g: "gets ?s (connect_prefix @ cstr new_ident)" by (simp add: gets_def)
  have r: "0 \<le> fst (connect_id (atoi new_ident) (mas ?s))" by (simp add: new_ident_room del: demo_simps)
  obtain s' v fd0 fd1 where s': "run_state (server_handler 5 (execution 5 Udp)) ?s = (Ret 0, s')"
    "knows s' new_ident v fd0 fd1" "int v = fst (connect_id (atoi new_ident) (mas ?s))"
    "data_pipe s' = (data_pipe ?s)(v := Some (fd0, fd1))"
    using connect_gives_number [OF l new_ident_made demo_succeeds(2) f g r, of 5 "execution 5 Udp"] by blast
  moreover have "v = 1" using s'(3) by (simp add: new_ident_room del: demo_simps)
  ultimately show ?thesis by blast
qed

lemma xor_char_eq_self: "xor_char c k = c \<longleftrightarrow> k = nul"
  by (cases c; cases k) auto

lemma zbuf_append: "length a \<le> n \<Longrightarrow> zbuf n (a @ b) = a @ zbuf (n - length a) b"
  by (simp add: zbuf_def)

lemma survives_quit:
  "k \<noteq> CHR ''q'' \<Longrightarrow> \<exists>t. survives k (''quit'' @ rest) = CHR ''q'' # t"
  "survives (CHR ''q'') (''quit'' @ rest) = []"
  "k \<notin> set ''quit'' \<Longrightarrow> \<exists>t. survives k (''quit'' @ rest) = ''quit'' @ t"
proof -
  have "zbuf BUFSZ (''quit'' @ rest) = ''quit'' @ zbuf 252 rest"
    by (rule trans [OF zbuf_append]) (simp_all add: BUFSZ_def)
  then show "k \<noteq> CHR ''q'' \<Longrightarrow> \<exists>t. survives k (''quit'' @ rest) = CHR ''q'' # t"
    "survives (CHR ''q'') (''quit'' @ rest) = []"
    "k \<notin> set ''quit'' \<Longrightarrow> \<exists>t. survives k (''quit'' @ rest) = ''quit'' @ t"
    unfolding survives_def by (auto simp: take_Cons')
qed

lemma encrypted_quit_differs:
  assumes "k \<noteq> nul"
  shows "\<not> strncmp_eq 6 (zbuf BUFSZ (map (\<lambda>x. xor_char x k) (survives k (''quit'' @ rest)))) quit_line"
proof (cases "k = CHR ''q''")
  case True
  then have "survives k (''quit'' @ rest) = []" using survives_quit(2) by simp
  then show ?thesis unfolding strncmp_eq_def quit_line_def zbuf_def by (simp add: c_string)
next
  case False
  then obtain t where t: "survives k (''quit'' @ rest) = CHR ''q'' # t" using survives_quit(1) by blast
  have "xor_char (CHR ''q'') k \<noteq> CHR ''q''" using assms by (simp add: xor_char_eq_self)
  moreover have "xor_char (CHR ''q'') k \<noteq> nul" using False by (auto simp: xor_char_eq_nul_iff)
  ultimately show ?thesis
    unfolding t by (simp add: strncmp_eq_def quit_line_def zbuf_def BUFSZ_def c_string)
qed

lemma server_message_table:
  assumes "calls_succeed s" "knows s ident v fd0 fd1"
    and "gets s (zbuf BUFSZ (cstr ident @ t))" "nul \<notin> set t" "length t \<le> 246"
    and "\<not> strncmp_eq 6 (zbuf BUFSZ t) quit_line"
  shows "mas (snd (run_state (server_handler n exec) s)) = mas s"
proof -
  obtain s' where "run_state (server_handler n exec) s = (Ret 0, s')"
    "mas s' = (if strncmp_eq 6 (zbuf BUFSZ t) quit_line then (mas s)(v := 0) else mas s)"
    using server_message [OF assms(1-5)] by blast
  then show ?thesis using assms(6) by simp
qed

text \<open>C27: no quitting client frees its number: neither a line that starts with \<open>quit\<close> (which makes the
  client end, and the sub-process too unless the key byte is in the word) nor the unencrypted
  \<open>quit\<close> of an interrupted client changes the table of the server.\<close>
theorem quit_keeps_number:
  assumes "calls_succeed s" "knows s ident v fd0 fd1" "line = ''quit'' @ rest" "k \<noteq> nul"
    and "gets s (datagram ident k line) \<or>
         gets s (snprintf_to BUFSZ (zeros BUFSZ) (cstr ident @ ''quit''))"
  shows "mas (snd (run_state (server_handler n exec) s)) = mas s \<and>
         (k \<notin> set ''quit'' \<longrightarrow> cmp_comm t (arrived k line) = Some CMD_QUIT)"
proof -
  have g: "length (cstr ident) = 9" using assms(2) by (simp add: knows_def good_id_def)
  have "mas (snd (run_state (server_handler n exec) s)) = mas s"
    using assms(5)
  proof
    assume "gets s (datagram ident k line)"
    then have d: "gets s (zbuf BUFSZ (cstr ident @ map (\<lambda>x. xor_char x k) (survives k line)))"
      unfolding datagram_def take_send_text [OF g] take_cstr_crypto .
    have "\<not> strncmp_eq 6 (zbuf BUFSZ (map (\<lambda>x. xor_char x k) (survives k line))) quit_line"
      unfolding assms(3) by (rule encrypted_quit_differs [OF assms(4)])
    then show ?thesis
      using length_survives by (intro server_message_table [OF assms(1,2) d no_nul_xor_survives]) simp_all
  next
    assume "gets s (snprintf_to BUFSZ (zeros BUFSZ) (cstr ident @ ''quit''))"
    moreover have "snprintf_to BUFSZ (zeros BUFSZ) (cstr ident @ ''quit'') = zbuf BUFSZ (cstr ident @ ''quit'')"
      using g replicate_Suc [of 242 nul, symmetric]
      by (simp add: snprintf_to_def write_at_0 zbuf_def BUFSZ_def del: replicate_Suc)
    ultimately have d: "gets s (zbuf BUFSZ (cstr ident @ ''quit''))" by (simp only:)
    have "\<not> strncmp_eq 6 (zbuf BUFSZ ''quit'') quit_line"
      by (simp add: strncmp_eq_def zbuf_def BUFSZ_def quit_line_def c_string)
    then show ?thesis by (intro server_message_table [OF assms(1,2) d]) simp_all
  qed
  moreover have "cmp_comm t (arrived k line) = Some CMD_QUIT" if "k \<notin> set ''quit''"
    using survives_quit(3) [OF that, of rest]
    by (auto simp: assms(3) arrived_def cmp_comm_def strncmp_eq_def c_string)
  ultimately show ?thesis by blast
qed

theorem quit_keeps_number_witness:
  "mas (snd (run_state (server_handler 5 (execution 5 Udp))
     (demo_srv (datagram demo_ident (CHR ''a'') (''quit'' @ [CHR 0x0A]))))) = (\<lambda>_. 0)(0 := 123456789)"
proof -
  let ?line = "''quit'' @ [CHR 0x0A]"
  let ?s = "demo_srv (datagram demo_ident (CHR ''a'') ?line)"
  have "gets ?s (datagram demo_ident (CHR ''a'') ?line) \<or>
      gets ?s (snprintf_to BUFSZ (zeros BUFSZ) (cstr demo_ident @ ''quit''))"
    by (rule disjI1) (simp only: gets_def demo_simps quiet_simps)
  note d = this
  have k: "CHR ''a'' \<noteq> nul" by simp
  have "mas (snd (run_state (server_handler 5 (execution 5 Udp)) ?s)) = mas ?s"
    by (rule conjunct1 [OF quit_keeps_number [OF demo_succeeds(2) demo_knows refl k d]])
  then show ?thesis by (simp only: demo_simps)
qed

end
