(* ===== verification/ChatReply.thy ===== *)
theory ChatReply
  imports ChatId
begin

section \<open>Commands and answers\<close>

text \<open>What the executor does with a text, how its answers travel back, and two ways the loops of the
  programs go astray.\<close>

text \<open>Calls whose results are sizes: none fails and none exceeds a buffer.\<close>

definition calls_fit :: "'a proc_scheme \<Rightarrow> bool" where
  "calls_fit s \<longleftrightarrow> (\<forall>k c. 0 \<le> val (env s k c) \<and> val (env s k c) \<le> int BUFSZ)"

lemma calls_fitD: "calls_fit s \<Longrightarrow> \<not> val (env s k c) < 0" "calls_fit s \<Longrightarrow> \<not> val (env s k c) > int BUFSZ"
  by (simp_all add: calls_fit_def not_less)

lemma demo_fits: "calls_fit (demo_cli l)" "calls_fit (demo_srv d)"
  by (simp_all add: calls_fit_def BUFSZ_def)

lemma received_full: "length (bytes r) = BUFSZ \<Longrightarrow> received (zeros BUFSZ) BUFSZ r = bytes r"
  by (simp add: received_zeros zbuf_def)

text \<open>C28: an answer of \<open>BUFSZ\<close> bytes leaves the server as one message on either transport and is
  decrypted to the same bytes on the other side, but the datagram client takes an answer whose first
  byte is the key for the end of the input: it never reaches its pipe.\<close>
theorem answers_arrive:
  assumes "calls_fit s" "length b = BUFSZ" "calls_succeed c"
    and "bytes (env c (length (trace c)) (Recvfrom (csk c) BUFSZ True)) = crypto (K s) b"
  shows "filter is_output (calls_of (send_info fd b nm) s) = [Sendto fd (crypto (K s) b) nm] \<and>
         filter is_output (calls_of (send_info_tcp fd b nm) s) = [Write fd (crypto (K s) b)] \<and>
         crypto (K s) (crypto (K s) b) = b \<and>
         filter is_output (calls_of (receiver (Suc 0) pipe1) c) =
           (if hd b = K s then [] else [Write pipe1 (crypto (K s) b)])"
proof -
  have nn: "\<not> val (env c k e) < 0" for k e using calls_succeed_not_neg [OF assms(3)] .
  have r: "received (zeros BUFSZ) BUFSZ (env c (length (trace c)) (Recvfrom (csk c) BUFSZ True)) = crypto (K s) b"
    using assms(2,4) by (subst received_full) simp_all
  obtain x xs where x: "b = x # xs" using assms(2) by (cases b) (auto simp: BUFSZ_def)
  have h: "hd (crypto (K s) b) = nul \<longleftrightarrow> hd b = K s"
    using assms(2) by (simp add: x crypto_short xor_char_eq_nul_iff)
  show ?thesis
    using calls_fitD [OF assms(1)] nn r h assms(2)
    by (simp add: send_info_def send_info_tcp_def calls_of_def run_simps log_defs Let_def)
qed

theorem answers_arrive_witness:
  "filter is_output (calls_of (receiver (Suc 0) 4) (demo_cli (crypto nul (zeros BUFSZ)))) = []"
proof -
  have b: "bytes (env (demo_cli (crypto nul (zeros BUFSZ))) (length (trace (demo_cli (crypto nul (zeros BUFSZ)))))
      (Recvfrom (csk (demo_cli (crypto nul (zeros BUFSZ)))) BUFSZ True)) = crypto (K (demo_srv [])) (zeros BUFSZ)"
    by (simp add: demo_srv_def)
  show ?thesis
    using answers_arrive [OF demo_fits(2) length_replicate demo_succeeds(1) b, of 0 no_addr 4]
    by (simp add: demo_srv_def)
qed

text \<open>The one output of a server that answers on a transport.\<close>

fun answer_call :: "transport \<Rightarrow> int \<Rightarrow> buf \<Rightarrow> sockaddr \<Rightarrow> call" where
  "answer_call Udp fd b nm = Sendto fd b nm"
| "answer_call Tcp fd b nm = Write fd b"

lemma cmp_comm_text:
  "cmp_comm s b = (if take 4 (cstr b) = ''quit'' then Some CMD_QUIT
     else if take 5 (cstr b) = ''shell'' then Some CMD_SHELL
     else if bash_work s \<noteq> 0 then Some CMD_TO_BASH else None)"
  by (simp add: cmp_comm_def strncmp_eq_def c_string)

text \<open>C29: what the executor does with a received text is decided by its first bytes, on both transports.
  A text that starts with \<open>quit\<close> ends the process without a word, also when a shell runs. One that
  starts with \<open>shell\<close> starts a shell on a new terminal, whose descriptor it keeps, and answers nothing
  if every call works. Any other text goes, and only the text, to the shell's terminal if there is a
  shell (one that answers nothing here), and is otherwise sent back behind \<open>unrecognized command\<close>, cut
  to the buffer and encrypted. In the last three cases the executor goes on with a cleared buffer.\<close>
theorem execution_by_command:
  assumes "calls_succeed s" "length b = BUFSZ" "nul \<in> set b" "cstr b = txt"
    and "\<And>k m. val (env s k (Sendto a m nm)) \<le> int BUFSZ"
  shows "(take 4 txt = ''quit'' \<longrightarrow>
            filter is_output (calls_of (execution n t b a nm fd) s) = [] \<and>
            fst (run_state (execution n t b a nm fd) s) = (Exited 0, b, fd)) \<and>
         (take 5 txt = ''shell'' \<longrightarrow>
            (\<forall>k. 3 \<le> val (env s k (Sys ''open'' [S ''/dev/ptmx''])) \<and> 0 < val (env s k Fork) \<and>
               (\<forall>f. val (env s k (Sys ''ptsname'' [I f])) \<noteq> 0)) \<longrightarrow>
            filter is_output (calls_of (execution n t b a nm fd) s) = [] \<and>
            Fork \<in> set (calls_of (execution n t b a nm fd) s) \<and>
            fst (run_state (execution n t b a nm fd) s) =
              (Ret 0, zeros BUFSZ, Some (val (env s (Suc (length (trace s))) (Sys ''open'' [S ''/dev/ptmx''])))) \<and>
            bash_work (snd (run_state (execution n t b a nm fd) s)) = 1) \<and>
         (take 4 txt \<noteq> ''quit'' \<longrightarrow> take 5 txt \<noteq> ''shell'' \<longrightarrow> bash_work s \<noteq> 0 \<longrightarrow>
            (\<forall>f. fd = Some f \<longrightarrow> (\<forall>k. val (env s k (Poll f)) = 0) \<longrightarrow>
               filter is_output (calls_of (execution (Suc n) t b a nm fd) s) = [Write f txt] \<and>
               fst (run_state (execution (Suc n) t b a nm fd) s) = (Ret 0, zeros BUFSZ, fd))) \<and>
         (take 4 txt \<noteq> ''quit'' \<longrightarrow> take 5 txt \<noteq> ''shell'' \<longrightarrow> bash_work s = 0 \<longrightarrow>
            filter is_output (calls_of (execution n t b a nm fd) s) =
              [answer_call t a (crypto (K s) (zbuf BUFSZ (take 255 (unrecognized @ txt @ [CHR 0x0A])))) nm] \<and>
            fst (run_state (execution n t b a nm fd) s) = (Ret 0, zeros BUFSZ, fd))"
proof (intro conjI impI allI)
  let ?t = "unrecognized @ cstr b @ [CHR 0x0A]"
  have nn: "\<not> val (env s k e) < 0" for k e using calls_succeed_not_neg [OF assms(1)] .
  have sn: "snprintf_to BUFSZ (zeros BUFSZ) ?t = zbuf BUFSZ (take 255 ?t)"
  proof -
    have "nul # zeros (BUFSZ - Suc (length (take 255 ?t))) = zeros (BUFSZ - length (take 255 ?t))"
      by (metis BUFSZ_def Suc_diff_Suc length_take min.strict_coboundedI2 min.commute
          numeral_less_iff replicate_Suc semiring_norm(76,78,81))
    then show ?thesis by (simp add: snprintf_to_def write_at_0 zbuf_def BUFSZ_def del: replicate_Suc)
  qed
  note exec = execution_def calls_of_def run_simps log_defs Let_def memset0_all
  show "filter is_output (calls_of (execution n t b a nm fd) s) = []"
    "fst (run_state (execution n t b a nm fd) s) = (Exited 0, b, fd)" if "take 4 txt = ''quit''"
    using that assms(4) by (simp_all add: exec cmp_comm_text)
  show "filter is_output (calls_of (execution n t b a nm fd) s) =
        [answer_call t a (crypto (K s) (zbuf BUFSZ (take 255 (unrecognized @ txt @ [CHR 0x0A])))) nm]"
    "fst (run_state (execution n t b a nm fd) s) = (Ret 0, zeros BUFSZ, fd)"
    if "take 4 txt \<noteq> ''quit''" "take 5 txt \<noteq> ''shell''" "bash_work s = 0"
  proof -
    have c: "cmp_comm s b = None" using that assms(4) by (simp add: cmp_comm_text)
    show "filter is_output (calls_of (execution n t b a nm fd) s) =
        [answer_call t a (crypto (K s) (zbuf BUFSZ (take 255 (unrecognized @ txt @ [CHR 0x0A])))) nm]"
      "fst (run_state (execution n t b a nm fd) s) = (Ret 0, zeros BUFSZ, fd)"
      using nn sn assms(2,4) assms(5) [THEN leD] c
      by (cases t; simp add: exec send_info_of_def send_info_def send_info_tcp_def)+
  qed
  show "filter is_output (calls_of (execution (Suc n) t b a nm fd) s) = [Write f txt]"
    "fst (run_state (execution (Suc n) t b a nm fd) s) = (Ret 0, zeros BUFSZ, fd)"
    if "take 4 txt \<noteq> ''quit''" "take 5 txt \<noteq> ''shell''" "bash_work s \<noteq> 0"
      "fd = Some f" "\<forall>k. val (env s k (Poll f)) = 0" for f
  proof -
    have c: "cmp_comm s b = Some CMD_TO_BASH" using that assms(4) by (simp add: cmp_comm_text)
    show "filter is_output (calls_of (execution (Suc n) t b a nm fd) s) = [Write f txt]"
      "fst (run_state (execution (Suc n) t b a nm fd) s) = (Ret 0, zeros BUFSZ, fd)"
      using nn assms(2,3,4) c that(4,5) by (simp_all add: exec)
  qed
  show "filter is_output (calls_of (execution n t b a nm fd) s) = []"
    "Fork \<in> set (calls_of (execution n t b a nm fd) s)"
    "fst (run_state (execution n t b a nm fd) s) =
       (Ret 0, zeros BUFSZ, Some (val (env s (Suc (length (trace s))) (Sys ''open'' [S ''/dev/ptmx'']))))"
    "bash_work (snd (run_state (execution n t b a nm fd) s)) = 1"
    if "take 5 txt = ''shell''"
      "\<forall>k. 3 \<le> val (env s k (Sys ''open'' [S ''/dev/ptmx''])) \<and> 0 < val (env s k Fork) \<and>
         (\<forall>f. val (env s k (Sys ''ptsname'' [I f])) \<noteq> 0)"
  proof -
    have "take 4 txt = take 4 (take 5 txt)" by simp
    then have c: "cmp_comm s b = Some CMD_SHELL" using that(1) assms(4) by (simp add: cmp_comm_text)
    have o: "\<not> val (env s k (Sys ''open'' [S ''/dev/ptmx''])) < 3" "val (env s k Fork) \<noteq> 0"
      "val (env s k (Sys ''ptsname'' [I f])) \<noteq> 0" for k f
      using that(2) by (auto simp: not_less) (metis less_irrefl)
    show "filter is_output (calls_of (execution n t b a nm fd) s) = []"
      "Fork \<in> set (calls_of (execution n t b a nm fd) s)"
      "fst (run_state (execution n t b a nm fd) s) =
         (Ret 0, zeros BUFSZ, Some (val (env s (Suc (length (trace s))) (Sys ''open'' [S ''/dev/ptmx'']))))"
      "bash_work (snd (run_state (execution n t b a nm fd) s)) = 1"
      using nn o c assms(2) by (simp_all add: exec shell_def)
  qed
qed

theorem execution_by_command_witness:
  "fst (run_state (execution 2 Tcp (zbuf BUFSZ ''dir'') 5 no_addr None) (demo_srv [])) = (Ret 0, zeros BUFSZ, None) \<and>
   fst (run_state (execution 2 Udp (zbuf BUFSZ ''quitting'') 5 no_addr None) (demo_srv [])) =
     (Exited 0, zbuf BUFSZ ''quitting'', None)"
proof -
  let ?s = "demo_srv []"
  have e: "val (env ?s k (Sendto 5 m no_addr)) \<le> int BUFSZ" for k m by (simp add: BUFSZ_def)
  have 1: "nul \<in> set (zbuf BUFSZ ''dir'')" "cstr (zbuf BUFSZ ''dir'') = ''dir''"
    and 2: "nul \<in> set (zbuf BUFSZ ''quitting'')" "cstr (zbuf BUFSZ ''quitting'') = ''quitting''"
    by (simp_all add: zbuf_def BUFSZ_def c_string)
  have l: "length (zbuf BUFSZ ''dir'') = BUFSZ" "length (zbuf BUFSZ ''quitting'') = BUFSZ"
    by (simp_all add: zbuf_def BUFSZ_def)
  show ?thesis
    using execution_by_command [OF demo_succeeds(2) l(1) 1 e, of 2 Tcp None]
      execution_by_command [OF demo_succeeds(2) l(2) 2 e, of 2 Udp None]
    by (simp add: demo_srv_def)
qed

lemma answers_tcp_grows: "\<exists>ts. trace (snd (run_state (answers_tcp n) s)) = trace s @ ts"
proof (induction n arbitrary: s)
  case 0
  then show ?case by (simp add: run_simps)
next
  case (Suc n)
  have "\<exists>ts. trace (snd (run_state (answers_tcp n) (s\<lparr>trace := t @ u\<rparr>))) = t @ ts" for t u
    using Suc [of "s\<lparr>trace := t @ u\<rparr>"] by auto
  then show ?case by (auto simp: run_simps log_defs Let_def split: prod.splits)
qed

text \<open>C30: a line a stream client types arrives unchanged, key bytes included: what the client writes,
  read by the sub-process with the same key, gives the line with zeros behind it.\<close>
theorem tcp_line_arrives:
  assumes "calls_succeed c" "bytes (env c (length (trace c)) (Read 0 BUFSZ)) = line" "length line \<le> BUFSZ"
    and "bytes (env s (length (trace s)) (Read fd BUFSZ)) = crypto (TK c) (zbuf BUFSZ line)"
    and "calls_succeed s" "K s = TK c"
  shows "(\<exists>ts. calls_of (receiver_tcp n) c =
            [Read 0 BUFSZ, Write (tsk c) (crypto (TK c) (zbuf BUFSZ line))] @ ts) \<and>
         run_state (child_loop_tcp (Suc m) exec fd (zeros BUFSZ) f) s =
           run_state (do { (e, b, f) \<leftarrow> exec (zbuf BUFSZ line) fd no_addr f;
                           on_ret e (\<lambda>v. if v < 0 then err_log ''execution'' else child_loop_tcp m exec fd b f) })
             (s\<lparr>trace := trace s @ [Read fd BUFSZ, Log INFO ''received: %s'' [str_arg (zbuf BUFSZ line)]]\<rparr>)"
proof -
  have nn: "\<not> val (env c k e) < 0" "\<not> val (env s k e) < 0" for k e
    using calls_succeed_not_neg assms(1,5) by blast+
  have r: "received (zeros BUFSZ) BUFSZ (env c (length (trace c)) (Read 0 BUFSZ)) = zbuf BUFSZ line"
    using assms(2,3) by (subst received_zeros) simp_all
  have q: "received (zeros BUFSZ) BUFSZ (env s (length (trace s)) (Read fd BUFSZ)) = crypto (TK c) (zbuf BUFSZ line)"
    using assms(4) by (subst received_full) simp_all
  let ?c = "c\<lparr>trace := trace c @ [Read 0 BUFSZ, Write (tsk c) (crypto (TK c) (zbuf BUFSZ line))]\<rparr>"
  obtain ts where "trace (snd (run_state (answers_tcp n) ?c)) = trace ?c @ ts"
    using answers_tcp_grows by blast
  then have "\<exists>ts. calls_of (receiver_tcp n) c =
      [Read 0 BUFSZ, Write (tsk c) (crypto (TK c) (zbuf BUFSZ line))] @ ts"
    using nn r by (auto simp: receiver_tcp_def calls_of_def run_simps log_defs Let_def)
  then show ?thesis
    using nn q assms(6) by (simp add: run_simps log_defs Let_def)
qed

definition demo_tcli :: "string \<Rightarrow> tcli" where
  "demo_tcli line = \<lparr>env = quiet line, trace = [], tsk = 3, TK = CHR ''a''\<rparr>"

theorem tcp_line_arrives_witness:
  "\<exists>ts. calls_of (receiver_tcp 5) (demo_tcli ''cat README'') =
     [Read 0 BUFSZ, Write 3 (crypto (CHR ''a'') (zbuf BUFSZ ''cat README''))] @ ts"
proof -
  let ?c = "demo_tcli ''cat README''" and ?s = "demo_srv (crypto (CHR ''a'') (zbuf BUFSZ ''cat README''))\<lparr>K := CHR ''a''\<rparr>"
  have "calls_succeed ?c" "calls_succeed ?s" by (simp_all add: calls_succeed_def demo_tcli_def)
  moreover have "bytes (env ?c (length (trace ?c)) (Read 0 BUFSZ)) = ''cat README''" "length ''cat README'' \<le> BUFSZ"
    "bytes (env ?s (length (trace ?s)) (Read 4 BUFSZ)) = crypto (TK ?c) (zbuf BUFSZ ''cat README'')" "K ?s = TK ?c"
    by (simp_all add: demo_tcli_def BUFSZ_def)
  ultimately show ?thesis
    using tcp_line_arrives [of ?c "''cat README''" ?s 4 5] by (simp add: demo_tcli_def)
qed

text \<open>When the client of a stream is gone every read returns 0 bytes.\<close>

definition hung_up :: "srv \<Rightarrow> int \<Rightarrow> bool" where
  "hung_up s fd \<longleftrightarrow> (\<forall>k. bytes (env s k (Read fd BUFSZ)) = [])"

lemma cmp_comm_key_bytes:
  assumes "bash_work s = 0" "k \<notin> {CHR ''q'', CHR ''s''}"
  shows "cmp_comm s (replicate BUFSZ k) = None"
proof -
  have "replicate BUFSZ k = k # replicate 255 k" by (simp add: BUFSZ_def flip: replicate_Suc)
  then show ?thesis using assms by (auto simp: cmp_comm_def strncmp_eq_def c_string)
qed

lemma cmp_comm_trace [simp]: "cmp_comm (s\<lparr>trace := t\<rparr>) b = cmp_comm s b"
  by (simp add: cmp_comm_def)

lemma spin_round:
  assumes "calls_fit s" "hung_up s fd" "bash_work s = 0" "K s \<notin> {CHR ''q'', CHR ''s''}"
  shows "\<exists>r. run_state (child_loop_tcp (Suc n) (execution m Tcp) fd (zeros BUFSZ) f) s =
       run_state (child_loop_tcp n (execution m Tcp) fd (zeros BUFSZ) f) (s\<lparr>trace := trace s @ r\<rparr>) \<and>
     length (filter is_output r) = 1"
proof -
  have r: "crypto (K s) (received (zeros BUFSZ) BUFSZ (env s k (Read fd BUFSZ))) = replicate BUFSZ (K s)" for k
    using assms(2) by (simp add: hung_up_def received_def write_at_0 crypto_short)
  show ?thesis
    using calls_fitD [OF assms(1)] r cmp_comm_key_bytes [OF assms(3,4)]
    by (intro exI [of _ "[Read fd BUFSZ, Log INFO ''received: %s'' [str_arg (replicate BUFSZ (K s))],
        Log INFO ''CMD is %d'' [I (cmd_num None)],
        Log INFO ''unrecognized command: %s'' [str_arg (replicate BUFSZ (K s))],
        Write fd (take BUFSZ (crypto (K s) (snprintf_to BUFSZ (zeros BUFSZ)
          (unrecognized @ cstr (replicate BUFSZ (K s)) @ [CHR 0x0A]))))]"])
      (simp add: execution_def send_info_of_def send_info_tcp_def run_simps log_defs Let_def memset0_all)
qed

text \<open>After a stream client has hung up without \<open>quit\<close> its sub-process does not end: every round it
  reads nothing, takes the key bytes in its buffer for an unknown command and sends an answer to
  nobody, for any number of rounds.\<close>
theorem sub_process_spins:
  assumes "calls_fit s" "hung_up s fd" "bash_work s = 0" "K s \<notin> {CHR ''q'', CHR ''s''}"
  shows "fst (run_state (child_handle_tcp n (execution m Tcp) fd) s) = Running \<and>
         length (filter is_output (calls_of (child_handle_tcp n (execution m Tcp) fd) s)) = n"
proof -
  have loop: "\<exists>ts. trace (snd (run_state (child_loop_tcp n (execution m Tcp) fd (zeros BUFSZ) f) s)) = trace s @ ts \<and>
      length (filter is_output ts) = n \<and>
      fst (run_state (child_loop_tcp n (execution m Tcp) fd (zeros BUFSZ) f) s) = Running"
    if "calls_fit s" "hung_up s fd" "bash_work s = 0" "K s \<notin> {CHR ''q'', CHR ''s''}" for f and s :: srv
    using that
  proof (induction n arbitrary: s f)
    case 0
    then show ?case by (simp add: run_simps)
  next
    case (Suc n)
    obtain r where r: "run_state (child_loop_tcp (Suc n) (execution m Tcp) fd (zeros BUFSZ) f) s =
        run_state (child_loop_tcp n (execution m Tcp) fd (zeros BUFSZ) f) (s\<lparr>trace := trace s @ r\<rparr>)"
      "length (filter is_output r) = 1"
      using spin_round [OF Suc.prems] by blast
    have "calls_fit (s\<lparr>trace := trace s @ r\<rparr>)" "hung_up (s\<lparr>trace := trace s @ r\<rparr>) fd"
      using Suc.prems by (simp_all add: calls_fit_def hung_up_def)
    then show ?case using Suc.IH [of "s\<lparr>trace := trace s @ r\<rparr>" f] Suc.prems(3,4) r by auto
  qed
  show ?thesis
    using loop [of "s\<lparr>trace := trace s @ [Sys ''signal'' [S ''SIGCHLD'', S ''off_bash'']]\<rparr>" None] assms
    by (auto simp: child_handle_tcp_def calls_of_def run_simps calls_fit_def hung_up_def)
qed

definition gone_srv :: srv where
  "gone_srv = (demo_srv [])\<lparr>K := CHR ''a''\<rparr>"

theorem sub_process_spins_witness:
  "length (filter is_output (calls_of (child_handle_tcp 1000 (execution 5 Tcp) 4) gone_srv)) = 1000"
proof -
  have "calls_fit gone_srv" "hung_up gone_srv 4" "bash_work gone_srv = 0" "K gone_srv \<notin> {CHR ''q'', CHR ''s''}"
    by (simp_all add: gone_srv_def calls_fit_def BUFSZ_def hung_up_def demo_srv_def)
  from sub_process_spins [OF this] show ?thesis by blast
qed

text \<open>With any key but 0, typing \<open>broadcast\<close> does not look for servers: the client compares the
  encrypted line with the word, and sends it to its server as an ordinary line.\<close>
theorem broadcast_is_sent:
  assumes "calls_succeed c" "CK c \<noteq> nul" "length rest \<le> 200"
    and "bytes (env c (length (trace c)) (Read 0 BUFSZ)) = ''broadcast'' @ rest"
  shows "\<exists>ts. calls_of (sender n behind pid pipe0) c =
     [Read 0 BUFSZ, Sendto (csk c) (datagram (cid c) (CK c) (''broadcast'' @ rest)) (srv_name c)] @ ts"
proof -
  have z: "zbuf BUFSZ (''broadcast'' @ rest) = CHR ''b'' # zbuf 255 (''roadcast'' @ rest)"
    using assms(3) by (simp add: zbuf_def BUFSZ_def)
  have "\<not> strncmp_eq 9 (crypto (CK c) (zbuf BUFSZ (''broadcast'' @ rest))) ''broadcast''"
    unfolding z using assms(2) by (auto simp: crypto_short BUFSZ_def strncmp_eq_def c_string xor_char_eq_self)
  then have "types_line c (''broadcast'' @ rest)"
    using assms(3,4) by (simp add: types_line_def BUFSZ_def)
  then show ?thesis by (rule sender_sends [OF assms(1)])
qed

theorem broadcast_is_sent_witness:
  "\<exists>ts. calls_of (sender 5 [] 9 4) (demo_cli (''broadcast'' @ [CHR 0x0A])) =
     [Read 0 BUFSZ, Sendto 3 (datagram demo_ident (CHR ''a'') (''broadcast'' @ [CHR 0x0A])) (2, 0, 0)] @ ts"
proof -
  let ?c = "demo_cli (''broadcast'' @ [CHR 0x0A])"
  have "CK ?c \<noteq> nul" "length [CHR 0x0A] \<le> 200" by simp_all
  moreover have "bytes (env ?c (length (trace ?c)) (Read 0 BUFSZ)) = ''broadcast'' @ [CHR 0x0A]"
    by (simp only: demo_simps quiet_simps)
  ultimately have "\<exists>ts. calls_of (sender 5 [] 9 4) ?c =
     [Read 0 BUFSZ, Sendto (csk ?c) (datagram (cid ?c) (CK ?c) (''broadcast'' @ [CHR 0x0A])) (srv_name ?c)] @ ts"
    by (rule broadcast_is_sent [OF demo_succeeds(1)])
  then show ?thesis by (simp only: demo_simps)
qed

end
