(* ===== verification/LogBuf.thy ===== *)
theory LogBuf
  imports Proc
begin

section \<open>The log: \<open>log/log.c\<close> and \<open>udp/log.c\<close>\<close>

text \<open>
  A log entry is put together in the static buffer \<open>buf\<close>, at the static offset \<open>pos\<close>, and written
  to the static descriptor \<open>fd\<close>. The two directories hold two versions of \<open>log_error\<close> that
  differ in which results they look at. \<open>text\<close> is the message after formatting.
\<close>

record logger = proc +
  lbuf :: buf
  lfd :: int
  lpos :: nat

text \<open>\<open>sprintf\<close> to an offset of \<open>buf\<close>: a text that does not fit with its NUL overflows.\<close>

definition sprintf_buf :: "nat \<Rightarrow> string \<Rightarrow> (logger, ret) state" where
  "sprintf_buf i t = do {
     s \<leftarrow> State_Monad.get;
     if BUFSZ \<le> i + length t then State_Monad.return (Fault Overflow)
     else do {
       State_Monad.update (lbuf_update (\<lambda>b. write_at b i (t @ [nul])));
       State_Monad.return (Ret (int (length t))) } }"

definition append_part :: "string \<Rightarrow> (logger, ret) state" where
  "append_part t = do {
     s \<leftarrow> State_Monad.get;
     e \<leftarrow> sprintf_buf (lpos s) (CHR ''['' # t @ '']'');
     on_ret e (\<lambda>v. do {
       State_Monad.update (lpos_update (\<lambda>p. p + nat v));
       State_Monad.return (Ret 0) }) }"

text \<open>The levels are 0, 1 and 2.\<close>

definition get_log_level :: "int \<Rightarrow> (logger, ret) state" where
  "get_log_level level =
     (let nbuf = (if level = 0 then ''INFO'' else if level = 1 then ''ERR '' else ''WARN'')
      in if level < 0 \<or> level > 2 then err_out ''level < INFO || level > WARN''
         else append_part nbuf)"

definition log_init :: "string option \<Rightarrow> (logger, ret) state" where
  "log_init path = do {
     r \<leftarrow> sys (Sys ''open'' [S (case path of None \<Rightarrow> ''/var/log/server.log'' | Some p \<Rightarrow> p)]);
     State_Monad.update (lfd_update (\<lambda>_. val r));
     if val r < 0 then err_out ''open'' else State_Monad.return (Ret 0) }"

text \<open>The text of \<open>ctime\<close> ends with a line feed, which is cut off.\<close>

definition get_time :: "(logger, ret) state" where
  "get_time = do {
     r \<leftarrow> sys (Sys ''ctime'' []);
     append_part (butlast (cstr (bytes r))) }"

definition paste_pid :: "(logger, ret) state" where
  "paste_pid = do {
     r \<leftarrow> sys (Sys ''getpid'' []);
     append_part (show_int (val r)) }"

text \<open>\<open>vsnprintf\<close> into the rest of the buffer. The offset stays where it is.\<close>

definition put_message :: "string \<Rightarrow> (logger, unit) state" where
  "put_message t = State_Monad.update (\<lambda>s.
     s\<lparr>lbuf := take (lpos s) (lbuf s) @ snprintf_to (BUFSZ - lpos s) (drop (lpos s) (lbuf s)) t\<rparr>)"

text \<open>The text of the error behind the entry; the buffer is its own source, which C does not define
  but which copies it onto itself.\<close>

definition put_errno :: "(logger, ret) state" where
  "put_errno = do {
     s \<leftarrow> State_Monad.get;
     r \<leftarrow> sys (Sys ''strerror'' []);
     sprintf_buf 0 (cstr (lbuf s) @ '': '' @ cstr (bytes r) @ [CHR 0x0A]) }"

definition write_entry :: "int \<Rightarrow> (logger, ret) state" where
  "write_entry level = do {
     s \<leftarrow> State_Monad.get;
     r \<leftarrow> sys (Write (lfd s) (lbuf s));
     if val r < 0 then err_out ''write buf to log''
     else do {
       e \<leftarrow> (if level = 0 \<or> level = 2 then do {
               r \<leftarrow> sys (Write (lfd s) [CHR 0x0A]);
               if val r < 0 then err_out ''write backslashn to fd'' else State_Monad.return (Ret 0) }
             else State_Monad.return (Ret 0));
       on_ret e (\<lambda>v. if v < 0 then State_Monad.return (Ret v) else do {
         State_Monad.update (\<lambda>s. s\<lparr>lpos := 0, lbuf := memset0 BUFSZ (lbuf s)\<rparr>);
         State_Monad.return (Ret 0) }) } }"

text \<open>\<open>log_error\<close> of \<open>udp/log.c\<close>; its second half is the message, the text of the error and the
  writing.\<close>

definition finish_entry :: "int \<Rightarrow> string \<Rightarrow> (logger, ret) state" where
  "finish_entry level t = do {
     put_message t;
     e \<leftarrow> (if level = 1 then put_errno else State_Monad.return (Ret 0));
     on_ret e (\<lambda>_. do {
       s \<leftarrow> State_Monad.get;
       e \<leftarrow> (if lfd s < 0 then log_init None else State_Monad.return (Ret 0));
       on_ret e (\<lambda>v. if v < 0 then err_out ''log_init'' else write_entry level) }) }"

definition log_error :: "int \<Rightarrow> string \<Rightarrow> (logger, ret) state" where
  "log_error level t = do {
     e \<leftarrow> get_log_level level;
     on_ret e (\<lambda>v. if v < 0 then err_out ''get_log_level'' else do {
       e \<leftarrow> get_time;
       on_ret e (\<lambda>v. if v < 0 then err_out ''get_time'' else do {
         e \<leftarrow> paste_pid;
         on_ret e (\<lambda>v. if v < 0 then err_out ''paste_pid'' else finish_entry level t) }) }) }"

text \<open>\<open>log_error\<close> of \<open>log/log.c\<close>, which goes on after a failed part.\<close>

definition log_error_lib :: "int \<Rightarrow> string \<Rightarrow> (logger, ret) state" where
  "log_error_lib level t = do {
     e \<leftarrow> get_log_level level;
     on_ret e (\<lambda>_. do {
       e \<leftarrow> get_time;
       on_ret e (\<lambda>_. do {
         e \<leftarrow> paste_pid;
         on_ret e (\<lambda>_. do {
           put_message t;
           e \<leftarrow> (if level = 1 then put_errno else State_Monad.return (Ret 0));
           on_ret e (\<lambda>_. do {
             s \<leftarrow> State_Monad.get;
             e \<leftarrow> (if lfd s < 0 then log_init None else State_Monad.return (Ret 0));
             on_ret e (\<lambda>_. write_entry level) }) }) }) }) }"

text \<open>The example program: three entries, whose results it does not look at; no return value is
  needed at the end of \<open>main\<close>.\<close>

definition log_main :: "(logger, ret) state" where
  "log_main = do {
     _ \<leftarrow> log_init None;
     e \<leftarrow> log_error_lib 1 (''[main.c:6] I'' @ [CHR 0x27] @ ''m here!'');
     on_ret e (\<lambda>_. do {
     e \<leftarrow> log_error_lib 2 (''[main.c:7] I'' @ [CHR 0x27] @ ''m here!'');
     on_ret e (\<lambda>_. do {
     e \<leftarrow> log_error_lib 0 (''[main.c:8] I'' @ [CHR 0x27] @ ''m here!'');
     on_ret e (\<lambda>_. State_Monad.return (Ret 0)) }) }) }"

subsection \<open>Lemmas\<close>

lemma run_append_part:
  "run_state (append_part t) s =
     (if BUFSZ \<le> lpos s + length t + 2 then (Fault Overflow, s)
      else (Ret 0, s\<lparr>lbuf := write_at (lbuf s) (lpos s) (CHR ''['' # t @ '']'' @ [nul]),
                      lpos := lpos s + length t + 2\<rparr>))"
  by (simp add: append_part_def sprintf_buf_def run_simps)

text \<open>What is fixed while an entry is made: the time, the process id and the text of the error.\<close>

definition stamped :: "logger \<Rightarrow> string \<Rightarrow> int \<Rightarrow> bool" where
  "stamped s tm p \<longleftrightarrow> (\<forall>k. bytes (env s k (Sys ''ctime'' [])) = tm @ [CHR 0x0A, nul]) \<and> nul \<notin> set tm \<and>
     (\<forall>k. val (env s k (Sys ''getpid'' [])) = p)"

definition level_name :: "int \<Rightarrow> string" where
  "level_name l = (if l = 0 then ''INFO'' else if l = 1 then ''ERR '' else ''WARN'')"

definition stamp :: "int \<Rightarrow> string \<Rightarrow> int \<Rightarrow> string" where
  "stamp l tm p = CHR ''['' # level_name l @ '']['' @ tm @ '']['' @ show_int p @ '']''"

lemma stamped_ctime:
  "stamped s tm p \<Longrightarrow> butlast (cstr (bytes (env s k (Sys ''ctime'' [])))) = tm"
proof -
  assume "stamped s tm p"
  then have "bytes (env s k (Sys ''ctime'' [])) = (tm @ [CHR 0x0A]) @ nul # []" "nul \<notin> set (tm @ [CHR 0x0A])"
    by (simp_all add: stamped_def)
  then have "cstr (bytes (env s k (Sys ''ctime'' []))) = tm @ [CHR 0x0A]"
    using cstr_append_nul by metis
  then show ?thesis by simp
qed

lemma stamped_pid: "stamped s tm p \<Longrightarrow> val (env s k (Sys ''getpid'' [])) = p"
  by (simp add: stamped_def)

text \<open>An entry in the making: the buffer starts with \<open>h\<close>, and zeros follow when it was clean.\<close>

definition making :: "logger \<Rightarrow> string \<Rightarrow> bool" where
  "making s h \<longleftrightarrow> lpos s = length h \<and> lbuf s = zbuf BUFSZ h \<and> length h < BUFSZ"

lemma write_at_zbuf:
  assumes "length h + length t < n"
  shows "write_at (zbuf n h) (length h) (t @ [nul]) = zbuf n (h @ t)"
proof -
  have "nul # replicate (n - (length h + Suc (length t))) nul = replicate (n - (length h + length t)) nul"
    using assms by (simp add: Suc_diff_Suc flip: replicate_Suc)
  then show ?thesis using assms by (simp add: write_at_def zbuf_def)
qed

lemma making_append:
  assumes "making s h" "length h + length t + 2 < BUFSZ"
  shows "\<exists>s'. run_state (append_part t) s = (Ret 0, s') \<and> making s' (h @ CHR ''['' # t @ '']'') \<and>
     env s' = env s \<and> trace s' = trace s \<and> lfd s' = lfd s"
proof -
  have "write_at (zbuf BUFSZ h) (length h) (CHR ''['' # t @ '']'' @ [nul]) = zbuf BUFSZ (h @ CHR ''['' # t @ '']'')"
    using write_at_zbuf [of h "CHR ''['' # t @ '']''" BUFSZ] assms(2) by simp
  then show ?thesis using assms by (simp add: run_append_part making_def)
qed

text \<open>The message behind the stamp.\<close>

lemma making_message:
  assumes "making s h"
  shows "\<exists>s'. run_state (put_message t) s = ((), s') \<and> lbuf s' = zbuf BUFSZ (take (BUFSZ - 1) (h @ t)) \<and>
     lpos s' = length h \<and> env s' = env s \<and> trace s' = trace s \<and> lfd s' = lfd s"
proof -
  let ?n = "BUFSZ - length h" let ?m = "take (?n - 1) t"
  have n: "0 < ?n" "length ?m < ?n" using assms by (auto simp: making_def)
  have "nul # replicate (?n - Suc (length ?m)) nul = replicate (?n - length ?m) nul"
    using n by (simp add: Suc_diff_Suc flip: replicate_Suc)
  then have "snprintf_to ?n (replicate ?n nul) t = zbuf ?n ?m"
    using n by (simp add: snprintf_to_def write_at_def zbuf_def)
  moreover have "take (length h) (zbuf BUFSZ h) = h" "drop (length h) (zbuf BUFSZ h) = replicate ?n nul"
    using assms by (simp_all add: making_def zbuf_def)
  moreover have "h @ zbuf ?n ?m = zbuf BUFSZ (take (BUFSZ - 1) (h @ t))"
    using assms n by (simp add: zbuf_def making_def)
  ultimately show ?thesis using assms by (simp add: put_message_def run_simps making_def)
qed

text \<open>The three parts in front of the message, when they fit.\<close>

lemma stamp_made:
  assumes "making s h" "stamped s tm p" "l \<in> {0, 1, 2}" "length h + length (stamp l tm p) < BUFSZ"
  shows "\<exists>s'. run_state (log_error l t) s = run_state (finish_entry l t) s' \<and> making s' (h @ stamp l tm p) \<and>
     env s' = env s \<and> trace s' = trace s @ [Sys ''ctime'' [], Sys ''getpid'' []] \<and> lfd s' = lfd s"
proof -
  have len: "length (stamp l tm p) = length (level_name l) + length tm + length (show_int p) + 6"
    by (simp add: stamp_def)
  obtain s1 where s1: "run_state (append_part (level_name l)) s = (Ret 0, s1)"
      "making s1 (h @ CHR ''['' # level_name l @ '']'')" "env s1 = env s" "trace s1 = trace s" "lfd s1 = lfd s"
    using making_append [OF assms(1), of "level_name l"] assms(4) len by auto
  let ?s1 = "s1\<lparr>trace := trace s1 @ [Sys ''ctime'' []]\<rparr>"
  obtain s2 where s2: "run_state (append_part tm) ?s1 = (Ret 0, s2)"
      "making s2 (h @ CHR ''['' # level_name l @ '']['' @ tm @ '']'')" "env s2 = env s"
      "trace s2 = trace s @ [Sys ''ctime'' []]" "lfd s2 = lfd s"
    using making_append [of ?s1 "h @ CHR ''['' # level_name l @ '']''" tm] s1(2-5) assms(4) len
    by (auto simp: making_def)
  let ?s2 = "s2\<lparr>trace := trace s2 @ [Sys ''getpid'' []]\<rparr>"
  obtain s3 where s3: "run_state (append_part (show_int p)) ?s2 = (Ret 0, s3)"
      "making s3 (h @ stamp l tm p)" "env s3 = env s"
      "trace s3 = trace s @ [Sys ''ctime'' [], Sys ''getpid'' []]" "lfd s3 = lfd s"
    using making_append [of ?s2 "h @ CHR ''['' # level_name l @ '']['' @ tm @ '']''" "show_int p"] s2(2-5) assms(4) len
    by (auto simp: making_def stamp_def)
  have g: "get_log_level l = append_part (level_name l)"
    using assms(3) by (auto simp: get_log_level_def level_name_def)
  have "run_state (log_error l t) s = run_state (finish_entry l t) s3"
    using s1 s2 s3 g stamped_ctime [OF assms(2)] stamped_pid [OF assms(2)]
    by (simp add: log_error_def get_time_def paste_pid_def run_simps)
  then show ?thesis using s3 by blast
qed

lemma stamp_overflows:
  assumes "making s h" "stamped s tm p" "l \<in> {0, 1, 2}" "BUFSZ \<le> length h + length (stamp l tm p)"
  shows "fst (run_state (log_error l t) s) = Fault Overflow"
proof -
  have len: "length (stamp l tm p) = length (level_name l) + length tm + length (show_int p) + 6"
    by (simp add: stamp_def)
  have g: "get_log_level l = append_part (level_name l)"
    using assms(3) by (auto simp: get_log_level_def level_name_def)
  show ?thesis
    using assms(1,4) len g stamped_ctime [OF assms(2)] stamped_pid [OF assms(2)]
    by (simp add: log_error_def get_time_def paste_pid_def run_simps run_append_part making_def)
qed

definition writes_of :: "call list \<Rightarrow> call list" where
  "writes_of cs = filter (\<lambda>c. case c of Write _ _ \<Rightarrow> True | _ \<Rightarrow> False) cs"

text \<open>C5: with an open log and a clean buffer, an entry of level INFO or WARN is one record of \<open>BUFSZ\<close>
  bytes with level, time, process id and the message, cut to the record and filled with zeros,
  followed by a line feed, and the buffer is clean for the next entry.\<close>
theorem entry_is_one_record:
  assumes "making s []" "stamped s tm p" "l \<in> {0, 2}" "calls_succeed s" "0 \<le> lfd s" "length (stamp l tm p) < BUFSZ"
  shows "\<exists>s'. run_state (log_error l t) s = (Ret 0, s') \<and> making s' [] \<and> stamped s' tm p \<and>
     writes_of (drop (length (trace s)) (trace s')) =
       [Write (lfd s) (zbuf BUFSZ (take (BUFSZ - 1) (stamp l tm p @ t))), Write (lfd s) [CHR 0x0A]]"
proof -
  obtain s1 where s1: "run_state (log_error l t) s = run_state (finish_entry l t) s1" "making s1 (stamp l tm p)"
    "env s1 = env s" "trace s1 = trace s @ [Sys ''ctime'' [], Sys ''getpid'' []]" "lfd s1 = lfd s"
    using stamp_made [OF assms(1,2), of l t] assms(3,6) by auto
  obtain s2 where s2: "run_state (put_message t) s1 = ((), s2)"
    "lbuf s2 = zbuf BUFSZ (take (BUFSZ - 1) (stamp l tm p @ t))" "env s2 = env s1" "trace s2 = trace s1" "lfd s2 = lfd s1"
    using making_message [OF s1(2), of t] by blast
  have nn: "\<not> val (env s k c) < 0" for k c using calls_succeed_not_neg [OF assms(4)] .
  have z: "memset0 BUFSZ (zbuf BUFSZ x) = zbuf BUFSZ []" for x
    by (simp add: memset0_def write_at_def zbuf_def)
  show ?thesis
    using s1 s2 nn assms(2,3,5) z
    by (auto simp: finish_entry_def write_entry_def run_simps making_def stamped_def writes_of_def)
qed

definition demo_env :: "int \<Rightarrow> nat \<Rightarrow> call \<Rightarrow> answer" where
  "demo_env w k c = (case c of
      Sys nm _ \<Rightarrow> if nm = ''ctime'' then \<lparr>val = 1, bytes = ''Thu Feb 18 12:00:00 2021'' @ [CHR 0x0A, nul], peer = (0, 0, 0), pollin = False\<rparr>
        else \<lparr>val = 4, bytes = [], peer = (0, 0, 0), pollin = False\<rparr>
    | Write _ _ \<Rightarrow> \<lparr>val = w, bytes = [], peer = (0, 0, 0), pollin = False\<rparr>
    | _ \<Rightarrow> \<lparr>val = 1, bytes = [], peer = (0, 0, 0), pollin = False\<rparr>)"

definition demo_log :: "int \<Rightarrow> logger" where
  "demo_log w = \<lparr>env = demo_env w, trace = [], lbuf = zbuf BUFSZ [], lfd = 3, lpos = 0\<rparr>"

definition demo_time :: string where
  "demo_time = ''Thu Feb 18 12:00:00 2021''"

lemma demo_log_simps [simp]:
  "making (demo_log w) []" "stamped (demo_log w) demo_time 4" "lfd (demo_log w) = 3" "trace (demo_log w) = []"
  "lpos (demo_log w) = 0" "val (env (demo_log w) k (Write f b)) = w"
  by (simp_all add: demo_log_def making_def stamped_def demo_time_def demo_env_def)

lemma demo_log_succeeds: "0 \<le> w \<Longrightarrow> calls_succeed (demo_log w)"
  by (auto simp: calls_succeed_def demo_log_def demo_env_def split: call.split)

lemma demo_stamp: "length (stamp l demo_time 4) = 35"
proof -
  have "show_int 4 = ''4''" by (simp add: show_int_def show_nat.simps [of 4] char_of_eq_iff)
  then show ?thesis by (simp add: stamp_def demo_time_def level_name_def)
qed

theorem entry_is_one_record_witness:
  "\<exists>s'. run_state (log_error 0 ''hello'') (demo_log 256) = (Ret 0, s') \<and> making s' [] \<and>
     length (writes_of (trace s')) = 2"
  using entry_is_one_record [OF demo_log_simps(1,2), of 0 256 "''hello''"] demo_log_succeeds [of 256]
    demo_stamp [of 0] by (auto simp: BUFSZ_def)

text \<open>The same program logging over and over, as the server does.\<close>

primrec log_times :: "nat \<Rightarrow> int \<Rightarrow> string \<Rightarrow> (logger, ret) state" where
  "log_times 0 l t = State_Monad.return (Ret 0)"
| "log_times (Suc n) l t = do { e \<leftarrow> log_error l t; on_ret e (\<lambda>_. log_times n l t) }"

lemma failing_write_moves_on:
  assumes "stamped s tm p" "l \<in> {0, 2}" "\<And>k f b. val (env s k (Write f b)) < 0" "0 \<le> lfd s"
  shows "if BUFSZ \<le> lpos s + length (stamp l tm p) then fst (run_state (log_error l t) s) = Fault Overflow
     else \<exists>s'. run_state (log_error l t) s = (Ret (- 1), s') \<and> lpos s' = lpos s + length (stamp l tm p) \<and>
       env s' = env s \<and> lfd s' = lfd s"
proof -
  have len: "length (stamp l tm p) = length (level_name l) + length tm + length (show_int p) + 6"
    by (simp add: stamp_def)
  have g: "get_log_level l = append_part (level_name l)"
    using assms(2) by (auto simp: get_log_level_def level_name_def)
  show ?thesis
    using assms(2-4) len g stamped_ctime [OF assms(1)] stamped_pid [OF assms(1)]
    by (auto simp: log_error_def get_time_def paste_pid_def run_simps run_append_part finish_entry_def
        put_message_def write_entry_def err_out_def simp del: length_butlast)
qed

text \<open>C31: a log that cannot be written makes the process overflow its buffer: an entry whose \<open>write\<close>
  fails leaves the offset behind its stamp, so with stamps of length \<open>L\<close> exactly as many
  entries fail orderly as fit, and the next one is written past the end of \<open>buf\<close>.\<close>
theorem failing_writes_overflow:
  assumes "stamped s tm p" "l \<in> {0, 2}" "\<And>k f b. val (env s k (Write f b)) < 0" "0 \<le> lfd s"
    and "lpos s = 0"
  shows "fst (run_state (log_times n l t) s) =
     (if n * length (stamp l tm p) < BUFSZ then Ret 0 else Fault Overflow)"
proof -
  let ?L = "length (stamp l tm p)"
  have "fst (run_state (log_times n l t) s) = (if lpos s + n * ?L < BUFSZ then Ret 0 else Fault Overflow)"
    if "stamped s tm p" "\<And>k f b. val (env s k (Write f b)) < 0" "0 \<le> lfd s" "lpos s < BUFSZ" for s :: logger
    using that
  proof (induction n arbitrary: s)
    case 0
    then show ?case by (simp add: run_simps)
  next
    case (Suc n)
    show ?case
    proof (cases "BUFSZ \<le> lpos s + ?L")
      case True
      then have "fst (run_state (log_error l t) s) = Fault Overflow"
        using failing_write_moves_on [OF Suc.prems(1) assms(2) Suc.prems(2,3), of t] by simp
      then show ?thesis using True by (cases "run_state (log_error l t) s") (simp add: run_simps)
    next
      case False
      then obtain s' where "run_state (log_error l t) s = (Ret (- 1), s')" "lpos s' = lpos s + ?L"
        "env s' = env s" "lfd s' = lfd s"
        using failing_write_moves_on [OF Suc.prems(1) assms(2) Suc.prems(2,3), of t] by auto
      then show ?thesis
        using Suc.IH [of s'] Suc.prems False by (simp add: run_simps stamped_def add.assoc)
    qed
  qed
  then show ?thesis using assms by simp
qed

theorem failing_writes_overflow_witness:
  "fst (run_state (log_times 7 0 ''hello'') (demo_log (- 1))) = Ret 0 \<and>
   fst (run_state (log_times 8 0 ''hello'') (demo_log (- 1))) = Fault Overflow"
  using failing_writes_overflow [OF demo_log_simps(2), of 0 "- 1" 7 "''hello''"]
    failing_writes_overflow [OF demo_log_simps(2), of 0 "- 1" 8 "''hello''"]
  by (simp add: demo_stamp BUFSZ_def)

end
