(* ===== verification/FileSys.thy ===== *)
theory FileSys
  imports CString "HOL-Library.AList" "HOL-Library.Sublist"
begin

section \<open>Directories and files\<close>

text \<open>
  The file system the daemon, the directory lister and the lock programs work on: a list of path
  names with what is there, in the order of creation. A path is an absolute name without empty or
  dotted parts; the root is the empty string, links and permissions are left out.
\<close>

datatype node = Dir | File string

type_synonym fsys = "(string \<times> node) list"

definition slash :: char where
  "slash = CHR ''/''"

text \<open>\<open>path1\<close>, a slash and \<open>name\<close>, as \<open>strcpy\<close> and \<open>strcat\<close> put them together.\<close>

definition join :: "string \<Rightarrow> string \<Rightarrow> string" where
  "join p n = p @ slash # n"

definition child :: "string \<Rightarrow> string \<Rightarrow> bool" where
  "child p q \<longleftrightarrow> take (Suc (length p)) q = p @ [slash] \<and> Suc (length p) < length q \<and>
     slash \<notin> set (drop (Suc (length p)) q)"

definition listing :: "fsys \<Rightarrow> string \<Rightarrow> string list" where
  "listing fs p = map (drop (Suc (length p))) (filter (child p) (map fst fs))"

definition is_dir :: "fsys \<Rightarrow> string \<Rightarrow> bool" where
  "is_dir fs p \<longleftrightarrow> map_of fs p = Some Dir"

definition has_parent :: "fsys \<Rightarrow> string \<Rightarrow> bool" where
  "has_parent fs p \<longleftrightarrow> list_ex (\<lambda>(q, n). n = Dir \<and> child q p) fs"

text \<open>\<open>mkdir\<close>, \<open>open\<close> with \<open>O_CREAT\<close> and without \<open>O_TRUNC\<close>, and writing from the start of a file.\<close>

definition mkdir :: "string \<Rightarrow> fsys \<Rightarrow> (bool \<times> fsys)" where
  "mkdir p fs = (if map_of fs p = None \<and> has_parent fs p then (True, fs @ [(p, Dir)]) else (False, fs))"

definition creat :: "string \<Rightarrow> fsys \<Rightarrow> (bool \<times> fsys)" where
  "creat p fs = (case map_of fs p of
       Some Dir \<Rightarrow> (False, fs)
     | Some (File c) \<Rightarrow> (True, fs)
     | None \<Rightarrow> if has_parent fs p then (True, fs @ [(p, File [])]) else (False, fs))"

definition over :: "string \<Rightarrow> string \<Rightarrow> string" where
  "over t old = t @ drop (length t) old"

definition write_file :: "string \<Rightarrow> string \<Rightarrow> fsys \<Rightarrow> fsys" where
  "write_file p t fs = (case map_of fs p of
       Some (File old) \<Rightarrow> AList.update p (File (over t old)) fs
     | _ \<Rightarrow> fs)"

subsection \<open>Names\<close>

lemma join_inject [simp]: "join p m = join p n \<longleftrightarrow> m = n"
  by (simp add: join_def)

lemma child_join [simp]: "child p (join p n) \<longleftrightarrow> n \<noteq> [] \<and> slash \<notin> set n"
  by (auto simp: child_def join_def)

lemma childD: "child p q \<Longrightarrow> q = join p (drop (Suc (length p)) q)"
proof -
  assume "child p q"
  then have "take (Suc (length p)) q = p @ [slash]" by (simp add: child_def)
  then have "q = (p @ [slash]) @ drop (Suc (length p)) q" by (metis append_take_drop_id)
  then show ?thesis by (simp add: join_def)
qed

lemma drop_join [simp]: "drop (Suc (length p)) (join p n) = n"
  by (simp add: join_def)

lemma length_join [simp]: "length (join p n) = length p + length n + 1"
  by (simp add: join_def)

text \<open>\<open>below p q\<close>: \<open>q\<close> is \<open>p\<close> or lies in the directory \<open>p\<close>.\<close>

definition below :: "string \<Rightarrow> string \<Rightarrow> bool" where
  "below p q \<longleftrightarrow> prefix (p @ [slash]) (q @ [slash])"

lemma below_refl [simp]: "below p p"
  by (simp add: below_def)

lemma below_join [intro]: "below p q \<Longrightarrow> below p (join q n)"
proof -
  assume "below p q"
  then obtain r where "q @ [slash] = (p @ [slash]) @ r" unfolding below_def by (elim prefixE)
  then have "join q n @ [slash] = (p @ [slash]) @ r @ n @ [slash]" by (simp add: join_def)
  then show ?thesis unfolding below_def by (metis prefixI)
qed

lemma below_child: "child p q \<Longrightarrow> below p q"
  using below_join [OF below_refl] childD by metis

lemma below_append: "r = [] \<or> hd r = slash \<Longrightarrow> below p (p @ r)"
  by (cases r) (auto simp: below_def)

lemma below_trans: "below p q \<Longrightarrow> below q r \<Longrightarrow> below p r"
  unfolding below_def by (rule prefix_order.trans)

text \<open>Directories apart: neither lies in the other, so nothing lies in both.\<close>

definition apart :: "string \<Rightarrow> string \<Rightarrow> bool" where
  "apart p q \<longleftrightarrow> \<not> below p q \<and> \<not> below q p"

lemma apart_sym: "apart p q \<Longrightarrow> apart q p"
  by (auto simp: apart_def)

lemma apart_below: "apart p q \<Longrightarrow> below p x \<Longrightarrow> below q x \<Longrightarrow> False"
  unfolding apart_def below_def by (metis prefix_same_cases)

lemma apart_not_below: "apart p q \<Longrightarrow> below p x \<Longrightarrow> \<not> below x q"
  using apart_below [of p q q] below_trans below_refl by blast

subsection \<open>Listings and lookups\<close>

lemma listing_append: "listing (fs @ gs) p = listing fs p @ listing gs p"
  by (simp add: listing_def)

lemma listing_apart: "(\<And>q. q \<in> set (map fst gs) \<Longrightarrow> \<not> child p q) \<Longrightarrow> listing (fs @ gs) p = listing fs p"
proof -
  assume "\<And>q. q \<in> set (map fst gs) \<Longrightarrow> \<not> child p q"
  then have "filter (child p) (map fst gs) = []" by (simp add: filter_empty_conv)
  then have "listing gs p = []" unfolding listing_def by (simp only: list.map)
  then show ?thesis by (simp add: listing_append)
qed

lemma map_of_fresh: "q \<notin> set (map fst fs) \<Longrightarrow> map_of fs q = None"
  by (simp add: map_of_eq_None_iff)

lemma map_of_append_left: "map_of fs q = Some x \<Longrightarrow> map_of (fs @ gs) q = Some x"
  by (simp add: map_add_Some_iff)

lemma map_of_append_none: "q \<notin> set (map fst gs) \<Longrightarrow> map_of (fs @ gs) q = map_of fs q"
  by (simp add: map_add_def map_of_fresh split: option.splits)

lemma map_of_append_new: "q \<notin> set (map fst fs) \<Longrightarrow> map_of (fs @ [(q, x)]) q = Some x"
  by (simp add: map_add_def map_of_fresh split: option.splits)

lemma update_last: "q \<notin> set (map fst fs) \<Longrightarrow> AList.update q y (fs @ [(q, x)]) = fs @ [(q, y)]"
  by (induction fs) auto

lemma has_parentI: "map_of fs p = Some Dir \<Longrightarrow> n \<noteq> [] \<Longrightarrow> slash \<notin> set n \<Longrightarrow> has_parent fs (join p n)"
  using map_of_SomeD [of fs p Dir] by (force simp: has_parent_def list_ex_iff)

text \<open>A file that is not there yet, in a directory that is: created and written in one go.\<close>

lemma create_and_write:
  assumes "q \<notin> set (map fst fs)" "has_parent fs q"
  shows "creat q fs = (True, fs @ [(q, File [])]) \<and>
         write_file q t (fs @ [(q, File [])]) = fs @ [(q, File t)]"
  using assms by (simp add: creat_def map_of_fresh write_file_def map_of_append_new update_last over_def del: map_of_append)

lemma fst_creat: "map fst (snd (creat p fs)) = map fst fs \<or> map fst (snd (creat p fs)) = map fst fs @ [p]"
  by (simp add: creat_def split: option.split node.split)

end
