(* ===== verification/BizzBuzz.thy ===== *)
theory BizzBuzz
  imports FileSys "HOL-Library.Signed_Division"
begin

section \<open>The bizz-buzz filter: \<open>bizbuzz/bizzbuzz.c\<close>\<close>

text \<open>
  \<open>transfer\<close> copies a file, replacing numbers divisible by 3, by 5 or by both. It works in one
  pass over the characters and goes back with \<open>lseek\<close> to copy a word it must not replace. The
  model has the local variables of the function and the offset of the input; the main loop takes
  a bound on its rounds, and \<open>transfer_spec\<close> below shows that it always ends and what it writes.
\<close>

record bb =
  pos :: nat
  cur :: char
  pbuf :: char
  ix :: int
  last_sp :: int
  summa :: int
  flg :: int
  outp :: string

text \<open>\<open>read(fd1, &cur, 1)\<close>: at the end of the file \<open>cur\<close> keeps its value.\<close>

definition bread :: "string \<Rightarrow> bb \<Rightarrow> bool \<times> bb" where
  "bread f s = (if pos s < length f then (True, s\<lparr>cur := f ! pos s, pos := pos s + 1\<rparr>) else (False, s))"

definition bwrite :: "string \<Rightarrow> bb \<Rightarrow> bb" where
  "bwrite t s = s\<lparr>outp := outp s @ t\<rparr>"

definition minus_sign :: char where
  "minus_sign = CHR ''-''"

definition mark_word :: "bb \<Rightarrow> bb" where
  "mark_word s =
     (if \<not> isspace (cur s) \<and> (cur s \<noteq> minus_sign \<or> ix s \<noteq> last_sp s + 1 \<and> ix s \<noteq> 0) \<and>
           (schar (cur s) < 48 \<or> schar (cur s) > 57) \<or>
         pbuf s = minus_sign \<and> isspace (cur s)
      then s\<lparr>flg := 1\<rparr> else s)"

definition add_digit :: "bb \<Rightarrow> bb" where
  "add_digit s =
     (if \<not> isspace (cur s) \<and> cur s \<noteq> minus_sign
      then s\<lparr>pbuf := cur s, summa := (summa s + schar (cur s) - 48) smod 3\<rparr> else s)"

text \<open>The inner loop: copy up to the next white space.\<close>

function copy_word :: "string \<Rightarrow> int \<Rightarrow> bb \<Rightarrow> bb" where
  "copy_word f len s =
     (if pos s < length f then
        (let s = snd (bread f s)
         in if isspace (cur s) \<and> ix s \<noteq> last_sp s then s
            else (let s = bwrite [cur s] s
                  in if ix s = len - 1 then s else copy_word f len (s\<lparr>ix := ix s + 1\<rparr>)))
      else s)"
  by pat_completeness auto

termination
  by (relation "measure (\<lambda>(f, len, s). length f - pos s)") (auto simp: bread_def bwrite_def Let_def)

declare copy_word.simps [simp del]

definition end_word :: "string \<Rightarrow> int \<Rightarrow> bb \<Rightarrow> bb" where
  "end_word f len s =
     (if isspace (cur s) \<and> ix s \<noteq> last_sp s \<and> ix s \<noteq> 0 \<and> \<not> isspace (pbuf s) then
        (let s = (if summa s smod 3 = 0 \<and> flg s = 0 then (bwrite ''bizz'' s)\<lparr>flg := 0, summa := 0\<rparr> else s);
             s = (if (schar (pbuf s) - 48) smod 5 = 0 \<and> flg s = 0
                  then (bwrite ''buzz'' s)\<lparr>flg := 0, summa := 0\<rparr> else s);
             s = (if flg s = 1 \<or> summa s \<noteq> 0 then
                    (let s = s\<lparr>ix := last_sp s, cur := nul, summa := 0, pos := nat (last_sp s + 1)\<rparr>;
                         s = copy_word f len (s\<lparr>ix := ix s + 1\<rparr>)
                     in s\<lparr>flg := 0\<rparr>)
                  else s)
         in s\<lparr>pbuf := cur s, last_sp := ix s\<rparr>)
      else s)"

definition copy_space :: "bb \<Rightarrow> bb" where
  "copy_space s = (if isspace (cur s) then (bwrite [cur s] s)\<lparr>last_sp := ix s\<rparr> else s)"

definition char_step :: "string \<Rightarrow> int \<Rightarrow> bb \<Rightarrow> bb" where
  "char_step f len s =
     (let s = snd (bread f s);
          s = mark_word s;
          s = add_digit s;
          s = end_word f len s;
          s = copy_space s
      in s\<lparr>pbuf := cur s\<rparr>)"

fun transfer_loop :: "nat \<Rightarrow> string \<Rightarrow> int \<Rightarrow> bb \<Rightarrow> bb option" where
  "transfer_loop 0 f len s = None"
| "transfer_loop (Suc n) f len s =
     (if ix s < len then
        (let s = char_step f len s in transfer_loop n f len (s\<lparr>ix := ix s + 1\<rparr>))
      else Some s)"

text \<open>\<open>transfer(fd1, fd2, len)\<close> on an input file with the contents \<open>f\<close>: what it writes.\<close>

definition bb_start :: bb where
  "bb_start = \<lparr>pos = 0, cur = nul, pbuf = nul, ix = 0, last_sp = -1, summa = 0, flg = 0, outp = []\<rparr>"

definition transfer :: "nat \<Rightarrow> string \<Rightarrow> int \<Rightarrow> string option" where
  "transfer n f len = map_option outp (transfer_loop n f len bb_start)"

text \<open>
  \<open>main\<close>: the texts it prints and the new contents of the output file. A file is named by its
  contents: \<open>None\<close> cannot be opened, \<open>Some (regular, contents)\<close> can. The output file is opened
  without \<open>O_TRUNC\<close>, so what is behind the new text stays.
\<close>

definition main_bb :: "nat \<Rightarrow> nat \<Rightarrow> (bool \<times> string) option \<Rightarrow> string option \<Rightarrow> string list \<times> string option option" where
  "main_bb n argc input dest =
     (if argc < 3 then ([''Not enough arguments''], Some None)
      else case input of
        None \<Rightarrow> ([''Input file not found''], Some None)
      | Some (regular, f) \<Rightarrow>
          if \<not> regular then ([''Input file is not regular''], Some None)
          else case dest of
            None \<Rightarrow> ([''Output file cannot be open''], Some None)
          | Some old \<Rightarrow> ([], map_option (\<lambda>t. Some (over t old)) (transfer n f (int (length f)))))"

subsection \<open>What it means to do\<close>

text \<open>A number is a word of digits, with a minus sign in front or not.\<close>

definition number :: "string \<Rightarrow> bool" where
  "number w \<longleftrightarrow> (let ds = (if w \<noteq> [] \<and> hd w = minus_sign then tl w else w) in ds \<noteq> [] \<and> list_all isdigit ds)"

definition digit_sum :: "string \<Rightarrow> int" where
  "digit_sum w = sum_list (map (\<lambda>c. if c = minus_sign then 0 else digit_val c) w)"

definition word_text :: "string \<Rightarrow> string" where
  "word_text w =
     (if number w then
        (let t = (if 3 dvd digit_sum w then ''bizz'' else []) @ (if 5 dvd digit_val (last w) then ''buzz'' else [])
         in if t = [] then w else t)
      else w)"

text \<open>White space is kept, every word that is followed by white space is replaced by its text, and a
  word at the very end of the file is left out.\<close>

function bb_spec :: "string \<Rightarrow> string" where
  "bb_spec f =
     (case dropWhile (\<lambda>c. \<not> isspace c) f of
        [] \<Rightarrow> []
      | c # r \<Rightarrow> word_text (takeWhile (\<lambda>c. \<not> isspace c) f) @ c # bb_spec r)"
  by pat_completeness auto

termination
proof (relation "measure length")
  fix f c r assume "dropWhile (\<lambda>c. \<not> isspace c) f = c # r"
  moreover have "length (dropWhile (\<lambda>c. \<not> isspace c) f) \<le> length f" by (rule length_dropWhile_le)
  ultimately show "(r, f) \<in> measure length" by simp
qed simp

declare bb_spec.simps [simp del]

subsection \<open>Scanning a word\<close>

lemma of_char_int: "(of_char c :: int) = int (of_char c)"
  by (rule of_nat_of_char [symmetric])

lemma isdigit_schar: "isdigit c \<longleftrightarrow> \<not> (schar c < 48 \<or> schar c > 57)"
proof -
  have "(of_char c :: nat) < 256"
    by (metis of_char_mod_256 mod_less_divisor zero_less_numeral)
  then obtain n where "(of_char c :: nat) = n" "n < 256" by blast
  then show ?thesis by (auto simp: isdigit_def schar_def of_char_int Let_def)
qed

lemma digit_schar: "isdigit c \<Longrightarrow> schar c - 48 = digit_val c"
  by (auto simp: isdigit_def schar_def of_char_int Let_def digit_val_def)

lemma minus_facts [simp]: "\<not> isspace minus_sign" "\<not> isdigit minus_sign" "minus_sign \<noteq> nul" "nul \<noteq> minus_sign"
  by (simp_all add: minus_sign_def isspace_def isdigit_def)

lemma nul_not_space [simp]: "\<not> isspace nul"
  by (simp add: isspace_def)

text \<open>What the main loop has found out about the characters of a word so far.\<close>

definition clean :: "string \<Rightarrow> bool" where
  "clean w = list_all isdigit (if w \<noteq> [] \<and> hd w = minus_sign then tl w else w)"

definition sum_mod :: "string \<Rightarrow> int" where
  "sum_mod w = foldl (\<lambda>m c. if c = minus_sign then m else (m + schar c - 48) smod 3) 0 w"

lemma clean_snoc: "clean (w @ [c]) \<longleftrightarrow> clean w \<and> (isdigit c \<or> w = [] \<and> c = minus_sign)"
  by (cases w) (auto simp: clean_def)

lemma sum_mod_snoc:
  "sum_mod (w @ [c]) = (if c = minus_sign then sum_mod w else (sum_mod w + schar c - 48) smod 3)"
  by (simp add: sum_mod_def)

lemma number_clean: "w \<noteq> [] \<Longrightarrow> number w \<longleftrightarrow> clean w \<and> last w \<noteq> minus_sign"
proof -
  assume "w \<noteq> []"
  then obtain v c where w: "w = v @ [c]" by (metis rev_exhaust)
  show ?thesis
    unfolding w by (cases v) (auto simp: number_def clean_def Let_def)
qed

lemma sum_mod_digits:
  "list_all isdigit ds \<Longrightarrow> sum_mod (u @ ds) = (if ds = [] then sum_mod u else (sum_mod u + digit_sum ds) mod 3)"
  if "0 \<le> sum_mod u" for u
proof (induction ds rule: rev_induct)
  case (snoc d ds)
  then have d: "isdigit d" "list_all isdigit ds" by simp_all
  then have m: "d \<noteq> minus_sign" "0 \<le> digit_val d"
    using minus_facts(2) by (auto simp: isdigit_def digit_val_def of_char_int)
  have ge: "0 \<le> sum_mod (u @ ds)" using snoc.IH [OF d(2)] that by simp
  have "sum_mod (u @ ds @ [d]) = (sum_mod (u @ ds) + digit_val d) mod 3"
    using sum_mod_snoc [of "u @ ds" d] m ge digit_schar [OF d(1)] by (simp add: smod_mod_positive algebra_simps)
  moreover have "digit_sum (ds @ [d]) = digit_sum ds + digit_val d" using m by (simp add: digit_sum_def)
  ultimately show ?case using snoc.IH [OF d(2)] by (simp add: digit_sum_def mod_simps ac_simps)
qed simp

lemma sum_mod_number:
  assumes "number w"
  shows "sum_mod w = digit_sum w mod 3"
proof -
  have z: "sum_mod [] = 0" "sum_mod [minus_sign] = 0" by (simp_all add: sum_mod_def)
  from assms consider ds where "w = minus_sign # ds" "ds \<noteq> []" "list_all isdigit ds"
    | "w \<noteq> []" "list_all isdigit w"
    by (cases w) (auto simp: number_def Let_def split: if_splits)
  then show ?thesis
  proof cases
    case 1
    then show ?thesis using sum_mod_digits [of "[minus_sign]" ds] z by (simp add: digit_sum_def)
  next
    case 2
    then show ?thesis using sum_mod_digits [of "[]" w] z by simp
  qed
qed

lemma number_last: "number w \<Longrightarrow> isdigit (last w)"
proof -
  assume n: "number w"
  then have "w \<noteq> []" by (auto simp: number_def Let_def)
  then obtain v c where w: "w = v @ [c]" by (metis rev_exhaust)
  show ?thesis using n unfolding w by (cases v) (auto simp: number_def Let_def split: if_splits)
qed

lemma digit_smod_5: "isdigit c \<Longrightarrow> (schar c - 48) smod 5 = 0 \<longleftrightarrow> 5 dvd digit_val c"
proof -
  assume d: "isdigit c"
  then have "0 \<le> digit_val c" by (auto simp: isdigit_def digit_val_def of_char_int)
  then show ?thesis using digit_schar [OF d] by (simp add: smod_mod_positive dvd_eq_mod_eq_0)
qed

text \<open>The copying loop.\<close>

lemma copy_word_run:
  assumes "f = a @ w @ c # r" "\<And>x. x \<in> set w \<Longrightarrow> \<not> isspace x" "isspace c"
    and "pos s = length a" "ix s = int (length a)" "last_sp s < ix s" "len = int (length f)"
  shows "copy_word f len s =
    s\<lparr>pos := length a + length w + 1, ix := int (length a + length w), cur := c, outp := outp s @ w\<rparr>"
  using assms
proof (induction w arbitrary: a s)
  case Nil
  then have "f ! pos s = c" by simp
  then show ?case using Nil by (subst copy_word.simps) (simp add: bread_def)
next
  case (Cons x w)
  then have x: "f ! pos s = x" "\<not> isspace x" "pos s < length f" by simp_all
  let ?s = "s\<lparr>cur := x, pos := pos s + 1, outp := outp s @ [x], ix := ix s + 1\<rparr>"
  have "copy_word f len ?s =
      ?s\<lparr>pos := length (a @ [x]) + length w + 1, ix := int (length (a @ [x]) + length w), cur := c, outp := outp ?s @ w\<rparr>"
    using Cons.prems by (intro Cons.IH) simp_all
  moreover have "ix s \<noteq> len - 1" using Cons.prems by simp
  ultimately show ?case
    using x by (simp add: copy_word.simps [of f len s] bread_def bwrite_def)
qed

subsection \<open>One round of the main loop\<close>

text \<open>\<open>in_word a w s\<close>: the text \<open>a\<close> is done and the characters \<open>w\<close> of the next word are scanned.\<close>

definition in_word :: "string \<Rightarrow> string \<Rightarrow> bb \<Rightarrow> bool" where
  "in_word a w s \<longleftrightarrow> pos s = length a + length w \<and> ix s = int (length a + length w) \<and>
     last_sp s = int (length a) - 1 \<and> flg s = (if clean w then 0 else 1) \<and> summa s = sum_mod w \<and>
     (if w = [] then isspace (pbuf s) \<or> a = [] \<and> pbuf s = nul else pbuf s = last w)"

definition round :: "string \<Rightarrow> bb \<Rightarrow> bb" where
  "round f s = (let s = char_step f (int (length f)) s in s\<lparr>ix := ix s + 1\<rparr>)"

lemma int_length_pos: "w \<noteq> [] \<Longrightarrow> int (length a) + int (length w) \<noteq> 0"
  by (cases w) auto

lemma flg_same: "flg s = v \<Longrightarrow> s\<lparr>cur := c, pos := q, flg := v\<rparr> = s\<lparr>cur := c, pos := q\<rparr>"
  by (cases s) simp

lemma bread_at: "f = a @ w @ c # r \<Longrightarrow> pos s = length a + length w \<Longrightarrow>
    snd (bread f s) = s\<lparr>cur := c, pos := length a + length w + 1\<rparr>"
  by (simp add: bread_def nth_append)

lemma round_in_word:
  assumes "f = a @ w @ c # r" "\<not> isspace c" "in_word a w s"
  shows "in_word a (w @ [c]) (round f s) \<and> outp (round f s) = outp s"
proof -
  have b: "snd (bread f s) = s\<lparr>cur := c, pos := length a + length w + 1\<rparr>"
    using assms(1,3) by (intro bread_at) (simp_all add: in_word_def)
  have i: "ix s \<noteq> last_sp s + 1 \<and> ix s \<noteq> 0 \<longleftrightarrow> w \<noteq> []"
    using assms(3) int_length_pos [of w a] by (cases "w = []") (simp_all add: in_word_def)
  have cond: "(c \<noteq> minus_sign \<or> ix s \<noteq> last_sp s + 1 \<and> ix s \<noteq> 0) \<and> (schar c < 48 \<or> schar c > 57) \<longleftrightarrow>
      \<not> (isdigit c \<or> w = [] \<and> c = minus_sign)"
    using i isdigit_schar [of c] minus_facts(2) by blast
  let ?s = "s\<lparr>cur := c, pos := length a + length w + 1, flg := (if clean (w @ [c]) then 0 else 1)\<rparr>"
  have m: "mark_word (s\<lparr>cur := c, pos := length a + length w + 1\<rparr>) = ?s"
  proof (cases "isdigit c \<or> w = [] \<and> c = minus_sign")
    case True
    then have "mark_word (s\<lparr>cur := c, pos := length a + length w + 1\<rparr>) = s\<lparr>cur := c, pos := length a + length w + 1\<rparr>"
      using cond assms(2) by (auto simp: mark_word_def)
    moreover have "flg s = (if clean (w @ [c]) then 0 else 1)"
      using True assms(3) by (simp add: in_word_def clean_snoc)
    ultimately show ?thesis by (simp add: flg_same)
  next
    case False
    then show ?thesis using cond assms(2) by (simp add: mark_word_def clean_snoc)
  qed
  let ?t = "?s\<lparr>pbuf := (if c = minus_sign then pbuf s else c), summa := sum_mod (w @ [c])\<rparr>"
  have d: "add_digit ?s = ?t"
    using assms(2,3) by (cases "c = minus_sign") (simp_all add: add_digit_def in_word_def sum_mod_snoc)
  have e: "copy_space (end_word f (int (length f)) ?t) = ?t"
    using assms(2) by (simp add: end_word_def copy_space_def)
  show ?thesis
    unfolding round_def char_step_def Let_def b m d e using assms(3) by (simp add: in_word_def)
qed

lemma round_space:
  assumes "f = a @ c # r" "isspace c" "in_word a [] s"
  shows "in_word (a @ [c]) [] (round f s) \<and> outp (round f s) = outp s @ [c]"
proof -
  have b: "snd (bread f s) = s\<lparr>cur := c, pos := length a + 1\<rparr>"
    using bread_at [of f a "[]" c r s] assms(1,3) by (simp add: in_word_def)
  have "pbuf s \<noteq> minus_sign" using assms(3) minus_facts by (auto simp: in_word_def)
  moreover have "ix s = 0 \<or> isspace (pbuf s)" using assms(3) by (auto simp: in_word_def)
  moreover have "clean []" "sum_mod [] = 0" by (simp_all add: clean_def sum_mod_def)
  ultimately show ?thesis
    using assms(2,3)
    by (auto simp: round_def char_step_def b Let_def mark_word_def add_digit_def end_word_def copy_space_def
        bwrite_def in_word_def)
qed

text \<open>What the end of a word writes, before the white space itself.\<close>

lemma end_word_run:
  assumes f: "f = a @ w @ c # r" and w: "w \<noteq> []" "\<And>x. x \<in> set w \<Longrightarrow> \<not> isspace x" and c: "isspace c"
    and s: "pos s = length a + length w + 1" "ix s = int (length a + length w)" "last_sp s = int (length a) - 1"
      "cur s = c" "pbuf s = last w" "flg s = (if number w then 0 else 1)" "number w \<Longrightarrow> summa s = sum_mod w"
  shows "end_word f (int (length f)) s =
    s\<lparr>pbuf := c, last_sp := ix s, flg := 0, summa := 0, outp := outp s @ word_text w\<rparr>"
proof -
  have p: "\<not> isspace (pbuf s)" "ix s \<noteq> last_sp s" "ix s \<noteq> 0" using w s int_length_pos [of w a] by simp_all
  have copy: "copy_word f (int (length f)) (t\<lparr>ix := last_sp s, cur := nul, summa := 0, pos := nat (last_sp s + 1), ix := last_sp s + 1\<rparr>) =
      t\<lparr>pos := pos s, ix := ix s, cur := c, summa := 0, outp := outp t @ w\<rparr>" if "last_sp t = last_sp s" for t
    using copy_word_run [OF f w(2) c, of "t\<lparr>ix := last_sp s, cur := nul, summa := 0,
        pos := nat (last_sp s + 1), ix := last_sp s + 1\<rparr>" "int (length f)"] s that by simp
  show ?thesis
  proof (cases "number w")
    case True
    then have d: "sum_mod w = digit_sum w mod 3" "isdigit (last w)"
      using sum_mod_number number_last by blast+
    have m: "sum_mod w smod 3 = sum_mod w" "sum_mod w = 0 \<longleftrightarrow> 3 dvd digit_sum w"
      unfolding d(1) by (simp_all add: smod_mod_positive dvd_eq_mod_eq_0)
    have five: "(schar (pbuf s) - 48) smod 5 = 0 \<longleftrightarrow> 5 dvd digit_val (last w)"
      using digit_smod_5 [OF d(2)] s(5) by simp
    show ?thesis
      using True m five p c s copy [of s]
      by (auto simp: end_word_def Let_def bwrite_def word_text_def)
  next
    case False
    then show ?thesis
      using p c s copy [of s] by (simp add: end_word_def Let_def word_text_def)
  qed
qed

lemma round_end:
  assumes "f = a @ w @ c # r" "w \<noteq> []" "\<And>x. x \<in> set w \<Longrightarrow> \<not> isspace x" "isspace c" "in_word a w s"
  shows "in_word (a @ w @ [c]) [] (round f s) \<and> outp (round f s) = outp s @ word_text w @ [c]"
proof -
  have b: "snd (bread f s) = s\<lparr>cur := c, pos := length a + length w + 1\<rparr>"
    using assms(1,5) by (intro bread_at) (simp_all add: in_word_def)
  let ?s = "s\<lparr>cur := c, pos := length a + length w + 1, flg := (if number w then 0 else 1)\<rparr>"
  have m: "add_digit (mark_word (s\<lparr>cur := c, pos := length a + length w + 1\<rparr>)) = ?s"
    using assms(2,4,5) number_clean [OF assms(2)] by (auto simp: in_word_def mark_word_def add_digit_def)
  have e: "end_word f (int (length f)) ?s = ?s\<lparr>pbuf := c, last_sp := ix ?s, flg := 0, summa := 0,
      outp := outp ?s @ word_text w\<rparr>"
    using assms(2,4,5) by (intro end_word_run [OF assms(1-4)]) (auto simp: in_word_def)
  have "clean []" "sum_mod [] = 0" by (simp_all add: clean_def sum_mod_def)
  then show ?thesis
    unfolding round_def char_step_def Let_def b m e
    using assms(4,5) by (simp add: copy_space_def bwrite_def in_word_def)
qed

subsection \<open>Properties\<close>

text \<open>The rest of a file from the start of a word on.\<close>

lemma transfer_loop_round:
  "ix s < int (length f) \<Longrightarrow> transfer_loop (Suc n) f (int (length f)) s = transfer_loop n f (int (length f)) (round f s)"
  by (simp add: round_def Let_def)

lemma loop_word:
  assumes "f = a @ w @ r" "\<And>x. x \<in> set w \<Longrightarrow> \<not> isspace x" "in_word a [] s"
  shows "\<exists>t. transfer_loop (length w + n) f (int (length f)) s = transfer_loop n f (int (length f)) t \<and>
     in_word a w t \<and> outp t = outp s"
  using assms
proof (induction w arbitrary: n r rule: rev_induct)
  case Nil
  then show ?case by auto
next
  case (snoc c w)
  obtain t where t: "transfer_loop (length w + Suc n) f (int (length f)) s = transfer_loop (Suc n) f (int (length f)) t"
    "in_word a w t" "outp t = outp s"
    using snoc.IH [of "c # r" "Suc n"] snoc.prems by auto
  have f: "f = a @ w @ c # r" using snoc.prems(1) by simp
  moreover have "\<not> isspace c" using snoc.prems(2) by simp
  ultimately have "in_word a (w @ [c]) (round f t)" "outp (round f t) = outp t"
    using round_in_word t(2) by blast+
  moreover have "ix t < int (length f)" using t(2) f by (simp add: in_word_def)
  ultimately show ?case using t transfer_loop_round [of t f n] by auto
qed

lemma loop_rest:
  "f = a @ r \<Longrightarrow> in_word a [] s \<Longrightarrow> length r < n \<Longrightarrow>
     \<exists>t. transfer_loop n f (int (length f)) s = Some t \<and> outp t = outp s @ bb_spec r"
proof (induction r arbitrary: a s n rule: bb_spec.induct)
  case (1 r)
  let ?w = "takeWhile (\<lambda>c. \<not> isspace c) r" let ?d = "dropWhile (\<lambda>c. \<not> isspace c) r"
  have w: "\<not> isspace x" if "x \<in> set ?w" for x using set_takeWhileD [OF that] by simp
  have split: "r = ?w @ ?d" by simp
  show ?case
  proof (cases ?d)
    case Nil
    then have r: "r = ?w" by (metis append_Nil2 takeWhile_dropWhile_id)
    obtain m where m: "n = length ?w + Suc m"
      using 1(4) r by (metis add_Suc_right less_iff_Suc_add)
    obtain t where t: "transfer_loop (length ?w + Suc m) f (int (length f)) s = transfer_loop (Suc m) f (int (length f)) t"
      "in_word a ?w t" "outp t = outp s"
      using loop_word [of f a ?w "[]" s "Suc m"] w 1(2,3) r by auto
    have "\<not> ix t < int (length f)" using t(2) 1(2) r by (simp add: in_word_def)
    moreover have "bb_spec r = []" unfolding bb_spec.simps [of r] using Nil by (simp only: list.case)
    ultimately show ?thesis using t m by simp
  next
    case (Cons c q)
    then have c: "isspace c" by (metis dropWhile_eq_Cons_conv)
    have f: "f = a @ ?w @ c # q" using 1(2) split Cons by simp
    have len: "length r = length ?w + Suc (length q)" using arg_cong [OF split, of length] Cons by simp
    obtain m where m: "n = length ?w + Suc m" "length q < m"
      by (rule that [of "n - length ?w - 1"]) (use len 1(4) in linarith)+
    obtain t where t: "transfer_loop (length ?w + Suc m) f (int (length f)) s = transfer_loop (Suc m) f (int (length f)) t"
      "in_word a ?w t" "outp t = outp s"
      using loop_word [OF f w 1(3), of "Suc m"] by blast
    have "ix t < int (length f)" using t(2) arg_cong [OF f, of length] by (simp add: in_word_def)
    then have n: "transfer_loop n f (int (length f)) s = transfer_loop m f (int (length f)) (round f t)"
      using t m transfer_loop_round by simp
    have rd: "in_word (a @ ?w @ [c]) [] (round f t) \<and> outp (round f t) = outp t @ word_text ?w @ [c]"
    proof (cases "?w = []")
      case True
      have "word_text [] = []" by (simp add: word_text_def number_def)
      then show ?thesis using round_space [of f a c q t] f c t(2) True by simp
    next
      case False
      then show ?thesis using round_end [OF f False w c t(2)] by simp
    qed
    have f': "f = (a @ ?w @ [c]) @ q" using f by simp
    obtain u where "transfer_loop m f (int (length f)) (round f t) = Some u" "outp u = outp (round f t) @ bb_spec q"
      using 1(1) [OF Cons f' conjunct1 [OF rd] m(2)] by blast
    moreover have "bb_spec r = word_text ?w @ c # bb_spec q" using Cons by (simp add: bb_spec.simps [of r])
    ultimately show ?thesis using n rd t(3) by simp
  qed
qed

text \<open>C12: \<open>transfer\<close> always ends, within one round per character, and writes exactly the specified
  text: white space kept, numbers replaced by \<open>bizz\<close>, \<open>buzz\<close> or both by the sum and the last of
  their digits, all other words copied, and a last word without white space behind it left out.\<close>
theorem transfer_spec:
  assumes "length f < n"
  shows "transfer n f (int (length f)) = Some (bb_spec f)"
proof -
  have "in_word [] [] bb_start" by (simp add: in_word_def bb_start_def clean_def sum_mod_def)
  then obtain t where "transfer_loop n f (int (length f)) bb_start = Some t" "outp t = outp bb_start @ bb_spec f"
    using loop_rest [of f "[]" f bb_start n] assms by auto
  then show ?thesis by (simp add: transfer_def bb_start_def)
qed

lemma bb_spec_word:
  assumes "\<And>x. x \<in> set w \<Longrightarrow> \<not> isspace x" "isspace c"
  shows "bb_spec (w @ c # r) = word_text w @ c # bb_spec r"
proof -
  have "takeWhile (\<lambda>c. \<not> isspace c) (w @ c # r) = w" "dropWhile (\<lambda>c. \<not> isspace c) (w @ c # r) = c # r"
    using assms by (simp_all add: takeWhile_append_stop dropWhile_append)
  then show ?thesis by (simp add: bb_spec.simps [of "w @ c # r"])
qed

theorem transfer_spec_witness:
  "transfer 100 ''9 -15 x9 7 3'' 12 = Some ''bizz bizzbuzz x9 7 ''"
proof -
  have "bb_spec ''9 -15 x9 7 3'' = ''bizz bizzbuzz x9 7 ''"
    by (simp add: bb_spec.simps isspace_def word_text_def number_def isdigit_def minus_sign_def digit_sum_def
        digit_val_def Let_def)
  then show ?thesis using transfer_spec [of "''9 -15 x9 7 3''" 100] by simp
qed

text \<open>The output file is opened without being truncated: a run over an existing file leaves
  everything behind the new text in place, and running the program with a file that has no final
  line feed drops its last word.\<close>
theorem output_keeps_tail:
  assumes "length f < n" "3 \<le> argc"
  shows "main_bb n argc (Some (True, f)) (Some old) =
           ([], Some (Some (bb_spec f @ drop (length (bb_spec f)) old))) \<and>
         ((\<forall>x \<in> set f. \<not> isspace x) \<longrightarrow> main_bb n argc (Some (True, f)) (Some old) = ([], Some (Some old)))"
proof -
  have "bb_spec f = []" if "\<forall>x \<in> set f. \<not> isspace x"
  proof -
    have "dropWhile (\<lambda>c. \<not> isspace c) f = []" using that by simp
    then show ?thesis unfolding bb_spec.simps [of f] by (simp only: list.case)
  qed
  then show ?thesis
    using assms by (simp add: main_bb_def transfer_spec over_def)
qed

theorem output_keeps_tail_witness:
  "main_bb 10 3 (Some (True, ''15'')) (Some ''old text'') = ([], Some (Some ''old text''))"
  using conjunct2 [OF output_keeps_tail [of "''15''" 10 3 "''old text''"]] by (simp add: isspace_def)

end
