(* ===== verification/Trans.thy ===== *)
theory Trans
  imports CString
begin

section \<open>Moving a file by signals: \<open>trans/main.c\<close> and \<open>trans/handler.c\<close>\<close>

text \<open>
  Two processes alternate by signals: the sender queues eight bytes with \<open>SIGUSR1\<close>, the receiver
  writes them and answers with \<open>SIGUSR1\<close>; \<open>SIGTERM\<close> announces the last portion. The model is a
  step relation: a step is one access to a flag, one system call with the assignments next to it, or the delivery of the pending
  signals of a process (the kernel delivers all of them before the program goes on). A standard
  signal is pending at most once: a second one is lost with its value. A busy wait is a step that
  is possible only once the flag is set.
\<close>

definition PTR :: nat where
  "PTR = 8"

text \<open>The places in the sender's \<open>main\<close>, and those in the receiver's.\<close>

datatype spc = S_Hello | S_Wait_hello | S_Open | S_Read | S_Term | S_Queue | S_Wait | S_Last_term | S_Done

datatype rpc = R_Ignition | R_Clear | R_Kill | R_Wait | R_Test | R_Write | R_Tail | R_Last_kill | R_Done

record link =
  s_pc :: spc
  s_flag :: bool
  s_usr1 :: bool
  s_ret :: nat
  s_buf :: buf
  regular :: bool
  infile :: string
  r_pc :: rpc
  r_flag :: bool
  r_more :: bool
  r_ignition :: bool
  r_mem :: buf
  r_chld :: bool
  r_term :: bool
  r_usr1 :: "buf option"
  outfile :: string

text \<open>The input file: whether it can be opened and is regular, and its contents; \<open>buf\<close> and \<open>mem\<close> hold whatever was in memory.\<close>

definition start_with :: "bool \<Rightarrow> string \<Rightarrow> buf \<Rightarrow> buf \<Rightarrow> link" where
  "start_with ok f b m = \<lparr>s_pc = S_Hello, s_flag = True, s_usr1 = False, s_ret = PTR, s_buf = b, regular = ok, infile = f,
     r_pc = R_Ignition, r_flag = True, r_more = True, r_ignition = False, r_mem = m,
     r_chld = False, r_term = False, r_usr1 = None, outfile = []\<rparr>"

definition start :: "string \<Rightarrow> buf \<Rightarrow> buf \<Rightarrow> link" where
  "start f b m = start_with True f b m"

text \<open>The first signal, and what the handlers do with the signals that are pending. \<open>killrest\<close> is
  modelled for the one sender there is.\<close>

definition say_hello :: "link \<Rightarrow> link" where
  [simp]: "say_hello s = s\<lparr>s_flag := False, r_chld := True, s_pc := S_Wait_hello\<rparr>"

definition sender_handler :: "link \<Rightarrow> link" where
  [simp]: "sender_handler s = s\<lparr>s_usr1 := False, s_flag := True\<rparr>"

definition shandler_1 :: "link \<Rightarrow> link" where
  [simp]: "shandler_1 s = s\<lparr>r_mem := (case r_usr1 s of None \<Rightarrow> r_mem s | Some b \<Rightarrow> b),
     r_flag := (r_flag s \<or> r_usr1 s \<noteq> None), r_usr1 := None\<rparr>"

definition handler_stop :: "link \<Rightarrow> link" where
  [simp]: "handler_stop s = s\<lparr>r_more := (r_more s \<and> \<not> r_term s), r_term := False\<rparr>"

definition killrest :: "link \<Rightarrow> link" where
  [simp]: "killrest s = s\<lparr>r_ignition := (r_ignition s \<or> r_chld s), r_chld := False\<rparr>"

text \<open>The handlers of \<open>SIGINT\<close>, in the sender and the receiver: the signals they send and what they print,
  before the process kills itself; and \<open>killrest\<close> for any process that sends \<open>SIGCHLD\<close>: the sender
  remembered afterwards, whether \<open>ignition\<close> is set, and the signals sent.\<close>

definition send_stop :: "bool \<Rightarrow> int \<Rightarrow> (int \<times> string) list \<times> string" where
  "send_stop confirmed_sender pid =
     ((if confirmed_sender then [(pid, ''SIGINT'')] else []), ''sending programm was interrupted'')"

definition receiver_stop :: "int \<Rightarrow> (int \<times> string) list \<times> string" where
  "receiver_stop pid = ([(pid, ''SIGINT'')], ''receiving programm was interrupted'')"

definition killrest_from :: "int \<Rightarrow> int \<Rightarrow> int \<times> bool \<times> (int \<times> string) list" where
  "killrest_from pid si_pid =
     (if pid \<noteq> 0 \<and> si_pid \<noteq> pid then (pid, False, [(si_pid, ''SIGKILL'')]) else (si_pid, True, []))"

text \<open>The two programs up to the first signal: the formats printed, and what is returned if that is the end.\<close>

definition sender_begins :: "nat \<Rightarrow> string list \<times> int option" where
  "sender_begins argc =
     (if argc < 3 then ([''argc < 3''], Some (- 1)) else ([''recpid is %d'', ''senpid is %d''], None))"

definition receiver_begins :: "nat \<Rightarrow> bool \<Rightarrow> string list \<times> int option" where
  "receiver_begins argc output_ok =
     (if argc < 2 then ([''argc<2''], Some (- 1))
      else if output_ok then ([''recpid is %d''], None) else ([''recpid is %d'', ''open''], Some (- 1)))"

text \<open>The first sender stays, all others are killed.\<close>

lemma first_sender_stays:
  assumes "p \<noteq> 0" "killrest_from 0 p = (pid, ign, ks)"
  shows "pid = p \<and> ign \<and> ks = [] \<and> (\<forall>q. fst (killrest_from pid q) = p \<and>
     (q \<noteq> p \<longrightarrow> snd (killrest_from pid q) = (False, [(q, ''SIGKILL'')])))"
  using assms by (auto simp: killrest_from_def)

text \<open>The sender. \<open>ret\<close> is less than the size of a pointer exactly at the end of a file that can be
  read; the byte behind what was read is cleared then.\<close>

inductive s_step :: "link \<Rightarrow> link \<Rightarrow> bool" where
  Hello: "s_pc s = S_Hello \<Longrightarrow> s_step s (say_hello s)"
| Wait_hello: "s_pc s = S_Wait_hello \<Longrightarrow> s_flag s \<Longrightarrow> s_step s (s\<lparr>s_pc := S_Open\<rparr>)"
| Open: "s_pc s = S_Open \<Longrightarrow> s_step s (s\<lparr>s_pc := (if regular s then S_Read else S_Done)\<rparr>)"
| Read: "s_pc s = S_Read \<Longrightarrow> n = min PTR (length (infile s)) \<Longrightarrow>
    s_step s (s\<lparr>s_buf := write_at (s_buf s) 0 (take n (infile s)), infile := drop n (infile s), s_ret := n,
                s_flag := False, s_pc := (if n < PTR then S_Term else S_Queue)\<rparr>)"
| Term: "s_pc s = S_Term \<Longrightarrow>
    s_step s (s\<lparr>r_term := True, s_buf := (s_buf s)[s_ret s := nul], s_pc := S_Queue\<rparr>)"
| Queue: "s_pc s = S_Queue \<Longrightarrow>
    s_step s (s\<lparr>r_usr1 := (if r_usr1 s = None then Some (s_buf s) else r_usr1 s), s_pc := S_Wait\<rparr>)"
| Wait: "s_pc s = S_Wait \<Longrightarrow> s_flag s \<Longrightarrow>
    s_step s (s\<lparr>s_pc := (if s_ret s = PTR then S_Read else S_Last_term)\<rparr>)"
| Last_term: "s_pc s = S_Last_term \<Longrightarrow> s_step s (s\<lparr>r_term := True, s_pc := S_Done\<rparr>)"
| S_deliver: "s_usr1 s \<Longrightarrow> s_pc s \<noteq> S_Done \<Longrightarrow> s_step s (sender_handler s)"

text \<open>The receiver: \<open>i\<close> is \<open>r_more\<close>. The last portion is written up to its first NUL.\<close>

inductive r_step :: "link \<Rightarrow> link \<Rightarrow> bool" where
  Ignition: "r_pc s = R_Ignition \<Longrightarrow> r_ignition s \<Longrightarrow> r_step s (s\<lparr>r_pc := R_Clear\<rparr>)"
| Clear: "r_pc s = R_Clear \<Longrightarrow> r_step s (s\<lparr>r_flag := False, r_pc := R_Kill\<rparr>)"
| Kill: "r_pc s = R_Kill \<Longrightarrow> r_step s (s\<lparr>s_usr1 := True, r_pc := R_Wait\<rparr>)"
| RWait: "r_pc s = R_Wait \<Longrightarrow> r_flag s \<Longrightarrow> r_step s (s\<lparr>r_pc := R_Test\<rparr>)"
| Test: "r_pc s = R_Test \<Longrightarrow> r_step s (s\<lparr>r_pc := (if r_more s then R_Write else R_Tail)\<rparr>)"
| Write: "r_pc s = R_Write \<Longrightarrow> r_step s (s\<lparr>outfile := outfile s @ r_mem s, r_pc := R_Clear\<rparr>)"
| Tail: "r_pc s = R_Tail \<Longrightarrow> r_step s (s\<lparr>outfile := outfile s @ cstr (r_mem s), r_pc := R_Last_kill\<rparr>)"
| Last_kill: "r_pc s = R_Last_kill \<Longrightarrow> r_step s (s\<lparr>s_usr1 := True, r_pc := R_Done\<rparr>)"
| R_deliver: "r_chld s \<or> r_term s \<or> r_usr1 s \<noteq> None \<Longrightarrow> r_pc s \<noteq> R_Done \<Longrightarrow>
    r_step s (killrest (handler_stop (shandler_1 s)))"

text \<open>Both relations can be executed; what a step can have been is read off by elimination.\<close>

code_pred (modes: i \<Rightarrow> o \<Rightarrow> bool) s_step .

code_pred (modes: i \<Rightarrow> o \<Rightarrow> bool) r_step .

inductive_cases s_stepE: "s_step s t"

inductive_cases r_stepE: "r_step s t"

definition step :: "link \<Rightarrow> link \<Rightarrow> bool" where
  "step s t \<longleftrightarrow> s_step s t \<or> r_step s t"

text \<open>What arrives: all whole portions, and of the rest what is in front of its first NUL.\<close>

definition whole :: "string \<Rightarrow> string" where
  "whole f = take (PTR * (length f div PTR)) f"

definition moved :: "string \<Rightarrow> string" where
  "moved f = whole f @ cstr (drop (length (whole f)) f)"

subsection \<open>The invariant of the exchange\<close>

text \<open>
  The receiver is idle when it waits for the next portion and nothing is on its way to it. The
  sender is answered when the answer is on its way or has arrived.
\<close>

definition idle :: "link \<Rightarrow> bool" where
  "idle s \<longleftrightarrow> r_pc s = R_Wait \<and> \<not> r_flag s \<and> r_usr1 s = None \<and> \<not> r_chld s"

definition unanswered :: "link \<Rightarrow> bool" where
  "unanswered s \<longleftrightarrow> \<not> s_usr1 s \<and> \<not> s_flag s"

definition answered :: "link \<Rightarrow> bool" where
  "answered s \<longleftrightarrow> s_usr1 s \<noteq> s_flag s"

text \<open>A whole portion is in \<open>buf\<close> and not yet in the output; or the last one, cleared behind.\<close>

definition portion :: "string \<Rightarrow> link \<Rightarrow> bool" where
  "portion f s \<longleftrightarrow> s_ret s = PTR \<and> r_more s \<and> \<not> r_term s \<and> PTR dvd length (outfile s) \<and>
     outfile s @ s_buf s @ infile s = f"

definition last_portion :: "string \<Rightarrow> link \<Rightarrow> bool" where
  "last_portion f s \<longleftrightarrow> s_ret s < PTR \<and> infile s = [] \<and> PTR dvd length (outfile s) \<and>
     outfile s @ take (s_ret s) (s_buf s) = f \<and> s_buf s ! s_ret s = nul"

definition between :: "string \<Rightarrow> link \<Rightarrow> bool" where
  "between f s \<longleftrightarrow> s_ret s = PTR \<and> r_more s \<and> \<not> r_term s \<and> PTR dvd length (outfile s) \<and>
     outfile s @ infile s = f"

definition inv :: "string \<Rightarrow> link \<Rightarrow> bool" where
  "inv f s \<longleftrightarrow> length (s_buf s) = PTR \<and> regular s \<and> (case s_pc s of
     S_Hello \<Rightarrow> between f s \<and> r_pc s = R_Ignition \<and> \<not> r_ignition s \<and> \<not> r_chld s \<and> r_usr1 s = None \<and> \<not> s_usr1 s
   | S_Wait_hello \<Rightarrow> between f s \<and> r_usr1 s = None \<and>
       (r_pc s = R_Ignition \<and> r_chld s \<noteq> r_ignition s \<and> unanswered s \<or>
        r_pc s = R_Clear \<and> \<not> r_chld s \<and> unanswered s \<or>
        r_pc s = R_Kill \<and> \<not> r_chld s \<and> \<not> r_flag s \<and> unanswered s \<or>
        idle s \<and> answered s)
   | S_Open \<Rightarrow> between f s \<and> idle s \<and> \<not> s_usr1 s
   | S_Read \<Rightarrow> between f s \<and> idle s \<and> \<not> s_usr1 s
   | S_Term \<Rightarrow> idle s \<and> unanswered s \<and> r_more s \<and> \<not> r_term s \<and> s_ret s < PTR \<and> infile s = [] \<and>
       PTR dvd length (outfile s) \<and> outfile s @ take (s_ret s) (s_buf s) = f
   | S_Queue \<Rightarrow> idle s \<and> unanswered s \<and> (portion f s \<or> last_portion f s \<and> r_term s = r_more s)
   | S_Wait \<Rightarrow> \<not> r_chld s \<and>
       (portion f s \<and> unanswered s \<and>
          (r_pc s = R_Wait \<and> \<not> r_flag s \<and> r_usr1 s = Some (s_buf s) \<or>
           r_pc s \<in> {R_Wait, R_Test, R_Write} \<and> r_flag s \<and> r_usr1 s = None \<and> r_mem s = s_buf s) \<or>
        between f s \<and> r_usr1 s = None \<and>
          (r_pc s = R_Clear \<and> unanswered s \<or> r_pc s = R_Kill \<and> \<not> r_flag s \<and> unanswered s \<or>
           idle s \<and> answered s) \<or>
        last_portion f s \<and> unanswered s \<and>
          (r_pc s = R_Wait \<and> \<not> r_flag s \<and> r_usr1 s = Some (s_buf s) \<and> r_term s = r_more s \<or>
           r_pc s \<in> {R_Wait, R_Test, R_Tail} \<and> r_flag s \<and> r_usr1 s = None \<and> r_mem s = s_buf s \<and>
             \<not> r_more s \<and> \<not> r_term s) \<or>
        s_ret s < PTR \<and> r_usr1 s = None \<and> \<not> r_term s \<and> outfile s = moved f \<and>
          (r_pc s = R_Last_kill \<and> unanswered s \<or> r_pc s = R_Done \<and> answered s))
   | S_Last_term \<Rightarrow> r_pc s = R_Done \<and> outfile s = moved f \<and> \<not> s_usr1 s
   | S_Done \<Rightarrow> r_pc s = R_Done \<and> outfile s = moved f \<and> \<not> s_usr1 s)"

lemma cstr_upto_nul: "n < length b \<Longrightarrow> b ! n = nul \<Longrightarrow> cstr b = cstr (take n b)"
proof -
  assume "n < length b" "b ! n = nul"
  then have "b = take n b @ nul # drop (Suc n) b" by (metis id_take_nth_drop)
  moreover have "cstr (x @ nul # y) = cstr x" for x y by (induction x) (simp_all add: c_string)
  ultimately show ?thesis by metis
qed

lemma moved_last:
  assumes "PTR dvd length a" "length t < PTR"
  shows "moved (a @ t) = a @ cstr t"
proof -
  obtain k where k: "length a = PTR * k" using assms(1) by (elim dvdE)
  then have "(length a + length t) div PTR = k" using assms(2) by (simp add: PTR_def)
  then have "whole (a @ t) = a" using k by (simp add: whole_def)
  then show ?thesis by (simp add: moved_def)
qed

lemmas inv_defs = inv_def idle_def unanswered_def answered_def portion_def last_portion_def between_def

lemma inv_start: "length b = PTR \<Longrightarrow> inv f (start f b m)"
  by (simp add: inv_defs start_def start_with_def)

lemma inv_s_step: "s_step s t \<Longrightarrow> inv f s \<Longrightarrow> inv f t"
proof (induction rule: s_step.induct)
  case (Read s n)
  show ?case
  proof (cases "n < PTR")
    case True
    then have "n = length (infile s)" using Read by (simp add: min_def split: if_splits)
    then show ?thesis
      using Read True by (auto simp: inv_defs write_at_def PTR_def)
  next
    case False
    then have "n = PTR" "PTR \<le> length (infile s)" using Read by (simp_all add: min_def split: if_splits)
    then show ?thesis
      using Read by (auto simp: inv_defs write_at_def PTR_def)
  qed
next
  case (Term s)
  then show ?case by (auto simp: inv_defs)
next
  case (Queue s)
  then show ?case by (auto simp: inv_defs)
next
  case (Wait s)
  then show ?case by (auto simp: inv_defs)
next
  case (S_deliver s)
  then show ?case by (cases "s_pc s") (auto simp: inv_defs)
qed (auto simp: inv_defs)

lemma last_output: "last_portion f s \<Longrightarrow> length (s_buf s) = PTR \<Longrightarrow> outfile s @ cstr (s_buf s) = moved f"
  using moved_last [of "outfile s" "take (s_ret s) (s_buf s)"] cstr_upto_nul [of "s_ret s" "s_buf s"]
  by (auto simp: last_portion_def)

lemma inv_r_step: "r_step s t \<Longrightarrow> inv f s \<Longrightarrow> inv f t"
proof (induction rule: r_step.induct)
  case (Ignition s)
  then show ?case by (cases "s_pc s") (auto simp: inv_defs)
next
  case (Clear s)
  then show ?case by (cases "s_pc s") (auto simp: inv_defs)
next
  case (Kill s)
  then show ?case by (cases "s_pc s") (auto simp: inv_defs)
next
  case (RWait s)
  then show ?case by (cases "s_pc s") (auto simp: inv_defs)
next
  case (Test s)
  then show ?case by (cases "s_pc s") (auto simp: inv_defs)
next
  case (Write s)
  then show ?case by (cases "s_pc s") (auto simp: inv_defs)
next
  case (Tail s)
  then have "s_pc s = S_Wait" by (cases "s_pc s") (auto simp: inv_defs)
  moreover from this have l: "last_portion f s" "r_mem s = s_buf s" "length (s_buf s) = PTR" "unanswered s"
      "\<not> r_chld s" "r_usr1 s = None" "\<not> r_term s" "regular s"
    using Tail by (auto simp: inv_def idle_def)
  moreover have "outfile s @ cstr (r_mem s) = moved f" using last_output l(1-3) by simp
  moreover have "s_ret s < PTR" using l(1) by (simp add: last_portion_def)
  ultimately show ?case by (simp add: inv_def unanswered_def)
next
  case (Last_kill s)
  then show ?case by (cases "s_pc s") (auto simp: inv_defs)
next
  case (R_deliver s)
  show ?case
  proof (cases "s_pc s")
    case S_Wait
    have nt: "portion f s \<Longrightarrow> \<not> r_term s" "between f s \<Longrightarrow> \<not> r_term s"
      by (simp_all add: portion_def between_def)
    then have "r_pc s = R_Wait" "\<not> r_flag s" "r_usr1 s = Some (s_buf s)" "unanswered s" "\<not> r_chld s"
      "length (s_buf s) = PTR" "regular s" "portion f s \<or> last_portion f s \<and> r_term s = r_more s"
      using R_deliver S_Wait unfolding inv_def idle_def by auto
    then show ?thesis
      using S_Wait by (auto simp: inv_def portion_def last_portion_def unanswered_def)
  qed (use R_deliver in \<open>auto simp: inv_defs\<close>)
qed

lemma inv_reach: "step\<^sup>*\<^sup>* s t \<Longrightarrow> inv f s \<Longrightarrow> inv f t"
  by (induction rule: rtranclp_induct) (auto simp: step_def inv_s_step inv_r_step)

text \<open>Until the sender is done one of the two can go on.\<close>

lemma can_step:
  assumes "inv f s" "s_pc s \<noteq> S_Done"
  shows "\<exists>t. step s t"
proof (cases "s_usr1 s \<or> r_pc s \<noteq> R_Done \<and> (r_chld s \<or> r_term s \<or> r_usr1 s \<noteq> None)")
  case True
  then show ?thesis using assms(2) s_step.S_deliver r_step.R_deliver unfolding step_def by metis
next
  case False
  show ?thesis
  proof (cases "s_pc s \<in> {S_Wait_hello, S_Wait} \<and> \<not> s_flag s")
    case True
    then have "r_pc s = R_Ignition \<and> r_ignition s \<or> r_pc s \<in> {R_Clear, R_Kill, R_Test, R_Write, R_Tail, R_Last_kill} \<or>
        r_pc s = R_Wait \<and> r_flag s"
      using False assms(1) by (auto simp: inv_defs)
    then show ?thesis
      unfolding step_def
      using r_step.Ignition r_step.Clear r_step.Kill r_step.Test r_step.Write r_step.Tail r_step.Last_kill r_step.RWait
      by blast
  next
    case False
    then show ?thesis
      unfolding step_def using assms(2) s_step.intros by (cases "s_pc s") blast+
  qed
qed

lemma no_step: "inv f s \<Longrightarrow> s_pc s = S_Done \<Longrightarrow> \<not> step s t"
proof
  assume i: "inv f s" "s_pc s = S_Done" and "step s t"
  then consider "s_step s t" | "r_step s t" by (auto simp: step_def)
  then show False
  proof cases
    case 1
    then show False using i(2) by (auto elim: s_stepE)
  next
    case 2
    moreover have "r_pc s = R_Done" using i by (simp add: inv_def)
    ultimately show False by (auto elim: r_stepE)
  qed
qed

text \<open>How many steps are left at most.\<close>

definition s_weight :: "spc \<Rightarrow> nat" where
  "s_weight p = (case p of S_Hello \<Rightarrow> 30 | S_Wait_hello \<Rightarrow> 28 | S_Open \<Rightarrow> 26 | S_Term \<Rightarrow> 24 | S_Queue \<Rightarrow> 21 | S_Wait \<Rightarrow> 18
     | S_Read \<Rightarrow> 15 | S_Last_term \<Rightarrow> 13 | S_Done \<Rightarrow> 10)"

definition r_weight :: "link \<Rightarrow> nat" where
  "r_weight s = (case r_pc s of R_Ignition \<Rightarrow> 13
     | R_Wait \<Rightarrow> (if r_flag s \<or> r_usr1 s \<noteq> None \<or> s_pc s \<in> {S_Term, S_Queue} then 12 else 2)
     | R_Test \<Rightarrow> 11 | R_Write \<Rightarrow> 9 | R_Tail \<Rightarrow> 9 | R_Clear \<Rightarrow> 7 | R_Last_kill \<Rightarrow> 7 | R_Kill \<Rightarrow> 5 | R_Done \<Rightarrow> 4)"

definition work :: "link \<Rightarrow> nat" where
  "work s = 40 * (length (infile s) + (if s_ret s = PTR then 1 else 0)) + s_weight (s_pc s) + r_weight s +
     (if r_chld s then 1 else 0) + (if r_term s then 1 else 0) + (if r_usr1 s \<noteq> None then 1 else 0) +
     (if s_usr1 s then 1 else 0)"

lemma work_s_step: "s_step s t \<Longrightarrow> inv f s \<Longrightarrow> work t < work s"
proof (induction rule: s_step.induct)
  case (Read s n)
  then have r: "s_ret s = PTR" "r_pc s = R_Wait" by (auto simp: inv_defs)
  show ?case
  proof (cases "n < PTR")
    case True
    then have "n = length (infile s)" using Read by (simp add: min_def split: if_splits)
    then show ?thesis using Read True r by (simp add: work_def s_weight_def r_weight_def PTR_def)
  next
    case False
    then have "n = PTR" "PTR \<le> length (infile s)" using Read by (simp_all add: min_def split: if_splits)
    then show ?thesis using Read r by (simp add: work_def s_weight_def r_weight_def PTR_def)
  qed
qed (auto simp: work_def s_weight_def r_weight_def inv_defs split: rpc.splits)

lemma work_r_step: "r_step s t \<Longrightarrow> inv f s \<Longrightarrow> work t < work s"
proof (induction rule: r_step.induct)
  case (R_deliver s)
  then show ?case
    by (cases "s_pc s") (auto simp: work_def s_weight_def r_weight_def inv_defs split: rpc.splits option.splits)
next
  case (Kill s)
  then show ?case by (cases "s_pc s") (auto simp: work_def s_weight_def r_weight_def inv_defs)
qed (auto simp: work_def s_weight_def r_weight_def)

lemma work_bounds: "(step ^^ n) s t \<Longrightarrow> inv f s \<Longrightarrow> n + work t \<le> work s"
proof (induction n arbitrary: t)
  case (Suc n)
  from Suc.prems(1) obtain u where u: "(step ^^ n) s u" "step u t" by auto
  then have "inv f u" using inv_reach [of s u f] Suc.prems(2) by (metis relpowp_imp_rtranclp)
  then have "work t < work u" using u(2) work_s_step work_r_step by (auto simp: step_def)
  then show ?case using Suc.IH [OF u(1) Suc.prems(2)] by simp
qed simp

subsection \<open>Properties\<close>

text \<open>A sender that cannot use its file ends behind the first exchange of signals without another one: the
  receiver waits for ever.\<close>

definition refused :: "link \<Rightarrow> bool" where
  "refused s \<longleftrightarrow> \<not> regular s \<and> \<not> r_term s \<and> r_usr1 s = None \<and> outfile s = [] \<and>
     s_pc s \<in> {S_Hello, S_Wait_hello, S_Open, S_Done} \<and>
     (r_pc s = R_Wait \<and> \<not> r_flag s \<or> r_pc s \<in> {R_Ignition, R_Clear} \<or> r_pc s = R_Kill \<and> \<not> r_flag s)"

lemma refused_step: "step s t \<Longrightarrow> refused s \<Longrightarrow> refused t"
  unfolding step_def
proof (elim disjE)
  show "s_step s t \<Longrightarrow> refused s \<Longrightarrow> refused t"
    by (induction rule: s_step.induct) (auto simp: refused_def)
  show "r_step s t \<Longrightarrow> refused s \<Longrightarrow> refused t"
    by (induction rule: r_step.induct) (auto simp: refused_def)
qed

lemma refused_reach: "step\<^sup>*\<^sup>* s t \<Longrightarrow> refused s \<Longrightarrow> refused t"
  by (induction rule: rtranclp_induct) (auto intro: refused_step)

lemma unusable_file_blocks_receiver:
  "step\<^sup>*\<^sup>* (start_with False f b m) s \<Longrightarrow> r_pc s \<noteq> R_Done \<and> outfile s = []"
  using refused_reach [of "start_with False f b m" s] by (auto simp: refused_def start_with_def)

text \<open>C4: in every interleaving of the two programs and of the delivery of their signals, no portion is
  lost or written twice: the exchange takes a bounded number of steps, it goes on until
  the sender is done and ends then, and the receiver has written exactly the whole portions of the file
  and its rest up to the first NUL.\<close>
theorem file_is_moved:
  assumes "(step ^^ n) (start f b m) s" "length b = PTR"
  shows "n \<le> 40 * length f + 100 \<and> (s_pc s \<noteq> S_Done \<longleftrightarrow> (\<exists>t. step s t)) \<and>
         (s_pc s = S_Done \<longrightarrow> r_pc s = R_Done \<and> outfile s = moved f)"
proof -
  have i: "inv f (start f b m)" using assms(2) by (rule inv_start)
  then have "inv f s" using inv_reach assms(1) by (metis relpowp_imp_rtranclp)
  moreover have "n + work s \<le> work (start f b m)" using work_bounds [OF assms(1) i] .
  moreover have "work (start f b m) \<le> 40 * length f + 100"
    by (simp add: work_def start_def start_with_def s_weight_def r_weight_def)
  ultimately show ?thesis using can_step no_step by (auto simp: inv_def)
qed

theorem file_is_moved_witness:
  "\<exists>t. step (start ''hello, world'' (replicate 8 nul) (replicate 8 nul)) t"
  using file_is_moved [of 0 "''hello, world''" "replicate 8 nul" "replicate 8 nul"
      "start ''hello, world'' (replicate 8 nul) (replicate 8 nul)"]
  by (simp add: PTR_def start_def start_with_def)

lemma moved_exact: "moved f = f \<longleftrightarrow> nul \<notin> set (drop (length (whole f)) f)"
proof -
  have w: "f = whole f @ drop (length (whole f)) f"
  proof -
    have "PTR * (length f div PTR) \<le> length f" by simp
    then show ?thesis by (simp add: whole_def min_def)
  qed
  have c: "cstr t = t \<longleftrightarrow> nul \<notin> set t" for t
    by (metis nul_notin_cstr cstr_no_nul)
  have "moved f = f \<longleftrightarrow> cstr (drop (length (whole f)) f) = drop (length (whole f)) f"
    unfolding moved_def by (subst (4) w) simp
  then show ?thesis using c by blast
qed

lemma run_ends: "inv f s \<Longrightarrow> \<exists>t. step\<^sup>*\<^sup>* s t \<and> s_pc t = S_Done"
proof (induction "work s" arbitrary: s rule: less_induct)
  case less
  show ?case
  proof (cases "s_pc s = S_Done")
    case False
    then obtain u where u: "step s u" using can_step less.prems by blast
    then have "work u < work s" "inv f u"
      using work_s_step work_r_step inv_s_step inv_r_step less.prems by (auto simp: step_def)
    then obtain t where "step\<^sup>*\<^sup>* u t" "s_pc t = S_Done" using less.hyps by blast
    then show ?thesis using u by (metis converse_rtranclp_into_rtranclp)
  qed blast
qed

text \<open>The copy is exact if and only if the rest of the file behind its last whole portion contains
  no NUL byte.\<close>
theorem copy_exact_iff:
  assumes "step\<^sup>*\<^sup>* (start f b m) s" "s_pc s = S_Done" "length b = PTR"
  shows "outfile s = f \<longleftrightarrow> nul \<notin> set (drop (length (whole f)) f)"
proof -
  have "inv f s" using inv_reach [OF assms(1)] inv_start [OF assms(3)] by blast
  then have "outfile s = moved f" using assms(2) by (simp add: inv_def)
  then show ?thesis using moved_exact by simp
qed

theorem copy_exact_iff_witness:
  "\<exists>s. step\<^sup>*\<^sup>* (start [nul, CHR ''y''] (replicate 8 nul) (replicate 8 nul)) s \<and> s_pc s = S_Done \<and>
     outfile s \<noteq> [nul, CHR ''y'']"
proof -
  have l: "length (replicate 8 nul) = PTR" by (simp add: PTR_def)
  obtain s where s: "step\<^sup>*\<^sup>* (start [nul, CHR ''y''] (replicate 8 nul) (replicate 8 nul)) s" "s_pc s = S_Done"
    using run_ends [OF inv_start [OF l]] by blast
  have "whole [nul, CHR ''y''] = []" by (simp add: whole_def PTR_def)
  then have "outfile s \<noteq> [nul, CHR ''y'']" using copy_exact_iff [OF s l] by simp
  then show ?thesis using s by blast
qed

end
