(* ===== verification/Schedule.thy ===== *)
theory Schedule
  imports Prelude
begin

section \<open>Two processes and their schedules\<close>

text \<open>
  A process is a function from states to the state after its next step, \<open>None\<close> where it has to wait or
  has ended. A schedule says who goes next, \<open>True\<close> for the first process; a process that has to wait
  leaves the state as it is.
\<close>

type_synonym 's process = "'s \<Rightarrow> 's option"

fun run2 :: "'s process \<Rightarrow> 's process \<Rightarrow> bool list \<Rightarrow> 's \<Rightarrow> 's" where
  "run2 p q [] s = s"
| "run2 p q (b # bs) s = run2 p q bs (case (if b then p s else q s) of None \<Rightarrow> s | Some t \<Rightarrow> t)"

lemma run2_append: "run2 p q (as @ bs) s = run2 p q bs (run2 p q as s)"
  by (induction as arbitrary: s) simp_all

lemma run2_first: "p s = Some t \<Longrightarrow> run2 p q (True # bs) s = run2 p q bs t"
  by simp

lemma run2_second: "q s = Some t \<Longrightarrow> run2 p q (False # bs) s = run2 p q bs t"
  by simp

declare run2.simps(2) [simp del]

text \<open>The contract of an invariant: both processes keep it, so every schedule does.\<close>

locale stable =
  fixes p q :: "'s process" and inv :: "'s \<Rightarrow> bool"
  assumes first: "p s = Some t \<Longrightarrow> inv s \<Longrightarrow> inv t"
    and second: "q s = Some t \<Longrightarrow> inv s \<Longrightarrow> inv t"
begin

lemma run: "inv s \<Longrightarrow> inv (run2 p q bs s)"
proof (induction bs arbitrary: s)
  case (Cons b bs)
  have "inv (case (if b then p s else q s) of None \<Rightarrow> s | Some t \<Rightarrow> t)"
    using Cons.prems first second by (auto split: option.split)
  then show ?case using Cons.IH by (simp add: run2.simps(2))
qed simp

end

text \<open>
  The contract of two processes that end under every fair schedule: each step brings them nearer, and
  as long as they have not ended one of them can go on. A fair schedule comes in rounds in each of
  which both processes are scheduled at least once.
\<close>

locale ending = stable +
  fixes final :: "'s \<Rightarrow> bool" and left :: "'s \<Rightarrow> nat"
  assumes first_nearer: "p s = Some t \<Longrightarrow> inv s \<Longrightarrow> left t < left s"
    and second_nearer: "q s = Some t \<Longrightarrow> inv s \<Longrightarrow> left t < left s"
    and goes_on: "inv s \<Longrightarrow> \<not> final s \<Longrightarrow> p s \<noteq> None \<or> q s \<noteq> None"
    and stays: "final s \<Longrightarrow> p s = None \<and> q s = None"
begin

lemma final_run: "final s \<Longrightarrow> run2 p q bs s = s"
  by (induction bs) (simp_all add: run2.simps(2) stays)

lemma left_run: "inv s \<Longrightarrow> left (run2 p q bs s) \<le> left s"
proof (induction bs arbitrary: s)
  case (Cons b bs)
  let ?t = "case (if b then p s else q s) of None \<Rightarrow> s | Some t \<Rightarrow> t"
  have "left ?t \<le> left s \<and> inv ?t"
    using Cons.prems first [of s] second [of s] less_imp_le [OF first_nearer, of s] less_imp_le [OF second_nearer, of s]
    by (auto split: option.split)
  then show ?case using Cons.IH [of ?t] by (simp add: run2.simps(2))
qed simp

lemma round_nearer:
  "inv s \<Longrightarrow> \<not> final s \<Longrightarrow> True \<in> set bs \<Longrightarrow> False \<in> set bs \<Longrightarrow> left (run2 p q bs s) < left s"
proof -
  have "left (run2 p q bs s) < left s"
    if "inv s" "p s \<noteq> None \<and> True \<in> set bs \<or> q s \<noteq> None \<and> False \<in> set bs"
    using that
  proof (induction bs)
    case (Cons b bs)
    show ?case
    proof (cases "if b then p s else q s")
      case None
      then have "p s \<noteq> None \<and> True \<in> set bs \<or> q s \<noteq> None \<and> False \<in> set bs"
        using Cons.prems(2) by (cases b) auto
      then show ?thesis using Cons None by (simp add: run2.simps(2))
    next
      case (Some t)
      then have "left t < left s" "inv t"
        using Cons.prems(1) first second first_nearer second_nearer by (cases b; simp; metis)+
      then have "left (run2 p q bs t) < left s" using left_run [of t bs] by simp
      then show ?thesis using Some by (simp add: run2.simps(2))
    qed
  qed simp
  then show "inv s \<Longrightarrow> \<not> final s \<Longrightarrow> True \<in> set bs \<Longrightarrow> False \<in> set bs \<Longrightarrow> left (run2 p q bs s) < left s"
    using goes_on by blast
qed

lemma fair_ends:
  "inv s \<Longrightarrow> left s \<le> length rs \<Longrightarrow> \<forall>bs \<in> set rs. True \<in> set bs \<and> False \<in> set bs \<Longrightarrow>
     final (run2 p q (concat rs) s)"
proof (induction rs arbitrary: s)
  case Nil
  then have "\<not> (p s \<noteq> None \<or> q s \<noteq> None)" using first_nearer second_nearer by fastforce
  then show ?case using goes_on [of s] Nil.prems(1) by auto
next
  case (Cons bs rs)
  show ?case
  proof (cases "final s")
    case True
    then show ?thesis by (simp only: final_run)
  next
    case False
    then have "left (run2 p q bs s) \<le> length rs" using round_nearer [of s bs] Cons.prems by simp
    then show ?thesis using Cons.IH [OF run] Cons.prems by (simp add: run2_append)
  qed
qed

end

end
