(* ===== verification/ShMem.thy ===== *)
theory ShMem
  imports FileSys Schedule
begin

section \<open>Moving a file through one shared byte: \<open>sh_memory/\<close>\<close>

text \<open>
  \<open>main.c\<close> reads the input file byte by byte into a shared cell, \<open>hand.c\<close> writes the cell to the
  output file; two semaphores pass the cell to and fro, and \<open>SIGUSR1\<close> ends the receiver's loop.
  The model starts when the semaphores exist, both 0, and \<open>hand.c\<close> has opened them. A process is
  a function from states to the state after its next step, \<open>None\<close> where it has to wait; a
  schedule says who goes next. A pending signal is handled before the receiver's next step.
\<close>

datatype main_pc = M_Wait_pid | M_Read | M_Post | M_Wait_ack | M_Kill | M_Post_end | M_Wait_end | M_Done

datatype hand_pc = H_Post_pid | H_Wait | H_Test | H_Write | H_Post | H_Post_end | H_Done

record cellbox =
  m_pc :: main_pc
  m_i :: int
  rest_in :: string
  h_pc :: hand_pc
  sem1 :: nat
  sem2 :: nat
  flag :: bool
  sig_usr1 :: bool
  sh_str :: char
  file_out :: string

definition boxes :: "string \<Rightarrow> char \<Rightarrow> cellbox" where
  "boxes f c = \<lparr>m_pc = M_Wait_pid, m_i = 0, rest_in = f, h_pc = H_Post_pid, sem1 = 0, sem2 = 0,
     flag = True, sig_usr1 = False, sh_str = c, file_out = []\<rparr>"

text \<open>\<open>main.c\<close> on a file of \<open>sz\<close> bytes: after the last byte it does not wait for the answer.\<close>

definition main_step :: "int \<Rightarrow> cellbox \<Rightarrow> cellbox option" where
  "main_step sz s = (case m_pc s of
       M_Wait_pid \<Rightarrow> if 0 < sem1 s then Some (s\<lparr>sem1 := sem1 s - 1, m_pc := M_Read\<rparr>) else None
     | M_Read \<Rightarrow> (case rest_in s of
           [] \<Rightarrow> Some (s\<lparr>m_pc := M_Kill\<rparr>)
         | c # cs \<Rightarrow> Some (s\<lparr>rest_in := cs, sh_str := c, m_pc := M_Post\<rparr>))
     | M_Post \<Rightarrow> Some (let s = s\<lparr>sem2 := sem2 s + 1\<rparr>
                     in if m_i s < sz - 1 then s\<lparr>m_pc := M_Wait_ack\<rparr>
                        else s\<lparr>m_i := m_i s + 1, m_pc := M_Read\<rparr>)
     | M_Wait_ack \<Rightarrow> if 0 < sem1 s then Some (s\<lparr>sem1 := sem1 s - 1, m_i := m_i s + 1, m_pc := M_Read\<rparr>) else None
     | M_Kill \<Rightarrow> Some (s\<lparr>sig_usr1 := True, m_pc := M_Post_end\<rparr>)
     | M_Post_end \<Rightarrow> Some (s\<lparr>sem2 := sem2 s + 1, m_pc := M_Wait_end\<rparr>)
     | M_Wait_end \<Rightarrow> if 0 < sem1 s then Some (s\<lparr>sem1 := sem1 s - 1, m_pc := M_Done\<rparr>) else None
     | M_Done \<Rightarrow> None)"

text \<open>\<open>hand.c\<close>.\<close>

definition hand_step :: "cellbox \<Rightarrow> cellbox option" where
  "hand_step s =
     (if h_pc s = H_Done then None
      else if sig_usr1 s then Some (s\<lparr>sig_usr1 := False, flag := False\<rparr>)
      else case h_pc s of
        H_Post_pid \<Rightarrow> Some (s\<lparr>sem1 := sem1 s + 1, h_pc := H_Wait\<rparr>)
      | H_Wait \<Rightarrow> if 0 < sem2 s then Some (s\<lparr>sem2 := sem2 s - 1, h_pc := H_Test\<rparr>) else None
      | H_Test \<Rightarrow> Some (s\<lparr>h_pc := (if flag s then H_Write else H_Post_end)\<rparr>)
      | H_Write \<Rightarrow> Some (s\<lparr>file_out := file_out s @ [sh_str s], h_pc := H_Post\<rparr>)
      | H_Post \<Rightarrow> Some (s\<lparr>sem1 := sem1 s + 1, h_pc := H_Wait\<rparr>)
      | H_Post_end \<Rightarrow> Some (s\<lparr>sem1 := sem1 s + 1, h_pc := H_Done\<rparr>)
      | H_Done \<Rightarrow> None)"

text \<open>Schedules: \<open>True\<close> lets \<open>main\<close> go, \<open>False\<close> the receiver.\<close>

definition run_boxes :: "int \<Rightarrow> bool list \<Rightarrow> cellbox \<Rightarrow> cellbox" where
  "run_boxes sz = run2 (main_step sz) hand_step"

subsection \<open>Before the exchange\<close>

text \<open>
  \<open>main\<close> removes the two semaphores and makes new ones, \<open>hand.c\<close> opens what is there: the pair is
  told by a number. Without semaphores \<open>sem_open\<close> returns the null pointer, which \<open>sem_post\<close> uses.
  \<open>hand.c\<close> also removes and creates the file it is given.
\<close>

definition main_setup :: "nat \<Rightarrow> nat option \<Rightarrow> nat \<times> nat option" where
  "main_setup k names = (k, Some k)"

definition hand_setup :: "nat option \<Rightarrow> nat res" where
  "hand_setup names = (case names of None \<Rightarrow> Inl Null_deref | Some k \<Rightarrow> Inr k)"

definition hand_output :: "string \<Rightarrow> fsys \<Rightarrow> bool \<times> fsys" where
  "hand_output name fs = creat name (if is_dir fs name then fs else AList.delete name fs)"

text \<open>So \<open>main\<close> has to be started first; semaphores left over by an earlier run separate the two.\<close>

lemma main_comes_first:
  "hand_setup None = Inl Null_deref" "hand_setup (snd (main_setup k names)) = Inr (fst (main_setup k names))"
  "old \<noteq> k \<Longrightarrow> hand_setup (Some old) \<noteq> Inr (fst (main_setup k (Some old)))"
  by (simp_all add: hand_setup_def main_setup_def)

text \<open>The file given to \<open>hand.c\<close> loses its contents.\<close>

lemma hand_output_empties:
  assumes "map_of fs p = Some (File c)" "has_parent (AList.delete p fs) p"
  shows "fst (hand_output p fs) \<and> map_of (snd (hand_output p fs)) p = Some (File [])"
proof -
  have "p \<notin> set (map fst (AList.delete p fs))" by (simp add: delete_keys)
  then show ?thesis
    using assms map_of_append_new [of p "AList.delete p fs" "File []"]
    by (simp add: hand_output_def creat_def is_dir_def delete_conv del: map_of_append)
qed

subsection \<open>The invariant\<close>

text \<open>\<open>holding\<close>: a byte is in the cell and on its way; \<open>taken\<close>: it has been written.\<close>

definition holding :: "cellbox \<Rightarrow> bool" where
  "holding s \<longleftrightarrow> sem1 s = 0 \<and> (h_pc s = H_Wait \<and> sem2 s = 1 \<or> h_pc s \<in> {H_Test, H_Write} \<and> sem2 s = 0)"

definition taken :: "cellbox \<Rightarrow> bool" where
  "taken s \<longleftrightarrow> sem2 s = 0 \<and> (h_pc s = H_Post \<and> sem1 s = 0 \<or> h_pc s = H_Wait \<and> sem1 s = 1)"

definition at_rest :: "cellbox \<Rightarrow> bool" where
  "at_rest s \<longleftrightarrow> sem1 s = 0 \<and> sem2 s = 0 \<and> h_pc s = H_Wait"

definition all_read :: "string \<Rightarrow> cellbox \<Rightarrow> bool" where
  "all_read f s \<longleftrightarrow> rest_in s = [] \<and>
     (f = [] \<and> file_out s = [] \<and> at_rest s \<or>
      holding s \<and> file_out s @ [sh_str s] = f \<or> taken s \<and> file_out s = f \<and> f \<noteq> [])"

definition box_inv :: "string \<Rightarrow> cellbox \<Rightarrow> bool" where
  "box_inv f s \<longleftrightarrow> (case m_pc s of
     M_Wait_pid \<Rightarrow> flag s \<and> \<not> sig_usr1 s \<and> m_i s = 0 \<and> rest_in s = f \<and> file_out s = [] \<and> sem2 s = 0 \<and>
       (h_pc s = H_Post_pid \<and> sem1 s = 0 \<or> h_pc s = H_Wait \<and> sem1 s = 1)
   | M_Read \<Rightarrow> flag s \<and> \<not> sig_usr1 s \<and>
       (at_rest s \<and> rest_in s \<noteq> [] \<and> file_out s @ rest_in s = f \<and> m_i s = int (length (file_out s)) \<or> all_read f s)
   | M_Post \<Rightarrow> flag s \<and> \<not> sig_usr1 s \<and> at_rest s \<and> file_out s @ sh_str s # rest_in s = f \<and>
       m_i s = int (length (file_out s))
   | M_Wait_ack \<Rightarrow> flag s \<and> \<not> sig_usr1 s \<and> rest_in s \<noteq> [] \<and>
       (holding s \<and> file_out s @ sh_str s # rest_in s = f \<and> m_i s = int (length (file_out s)) \<or>
        taken s \<and> file_out s @ rest_in s = f \<and> m_i s + 1 = int (length (file_out s)))
   | M_Kill \<Rightarrow> flag s \<and> \<not> sig_usr1 s \<and> all_read f s
   | _ \<Rightarrow> (sig_usr1 s \<or> \<not> flag s) \<and>
       (file_out s = f \<and> h_pc s \<in> {H_Wait, H_Test, H_Post, H_Post_end, H_Done} \<or>
        file_out s = butlast f \<and>
          (h_pc s \<in> {H_Wait, H_Test, H_Post_end, H_Done} \<or> h_pc s = H_Write \<and> file_out s @ [sh_str s] = f)))"

lemmas box_defs = box_inv_def holding_def taken_def at_rest_def all_read_def

lemma box_inv_start: "box_inv f (boxes f c)"
  by (simp add: box_inv_def boxes_def)

lemma box_inv_main: "main_step (int (length f)) s = Some t \<Longrightarrow> box_inv f s \<Longrightarrow> box_inv f t"
  by (cases "m_pc s")
    (auto simp: main_step_def box_defs Let_def split: if_splits list.splits)

lemma box_inv_hand: "hand_step s = Some t \<Longrightarrow> box_inv f s \<Longrightarrow> box_inv f t"
  by (cases "m_pc s"; cases "h_pc s")
    (auto simp: hand_step_def box_defs split: if_splits)

interpretation box: stable "main_step (int (length f))" hand_step "box_inv f"
  by unfold_locales (fact box_inv_main box_inv_hand)+

lemma box_inv_run: "box_inv f s \<Longrightarrow> box_inv f (run_boxes (int (length f)) bs s)"
  unfolding run_boxes_def by (rule box.run)

subsection \<open>Schedules\<close>

lemma run_boxes_append: "run_boxes sz (as @ bs) s = run_boxes sz bs (run_boxes sz as s)"
  by (simp add: run_boxes_def run2_append)

definition ready :: "cellbox \<Rightarrow> bool" where
  "ready s \<longleftrightarrow> m_pc s = M_Read \<and> flag s \<and> \<not> sig_usr1 s \<and> at_rest s"

lemmas box_run = run_boxes_def run2_first run2_second main_step_def hand_step_def ready_def at_rest_def

lemma ready_start: "ready (run_boxes sz [False, True] (boxes f c))"
    "rest_in (run_boxes sz [False, True] (boxes f c)) = f"
    "file_out (run_boxes sz [False, True] (boxes f c)) = []" "m_i (run_boxes sz [False, True] (boxes f c)) = 0"
  by (simp_all add: boxes_def box_run)

text \<open>One byte that is not the last, handed over in good order.\<close>

lemma ready_cycle:
  assumes "ready s" "rest_in s = c # cs" "m_i s < sz - 1"
  shows "\<exists>t. run_boxes sz [True, True, False, False, False, False, True] s = t \<and> ready t \<and>
     rest_in t = cs \<and> file_out t = file_out s @ [c] \<and> m_i t = m_i s + 1"
  using assms by (cases s) (simp add: box_run)

lemma ready_last:
  assumes "ready s" "rest_in s = cs @ [c]" "m_i s = int (length (file_out s))"
    and "sz = int (length (file_out s)) + int (length cs) + 1"
  shows "\<exists>bs t. run_boxes sz bs s = t \<and> ready t \<and> rest_in t = [c] \<and> file_out t = file_out s @ cs \<and> m_i t = sz - 1"
  using assms
proof (induction cs arbitrary: s)
  case Nil
  then show ?case by (intro exI [of _ "[]"]) (simp add: run_boxes_def)
next
  case (Cons x cs)
  then obtain t where t: "run_boxes sz [True, True, False, False, False, False, True] s = t" "ready t"
    "rest_in t = cs @ [c]" "file_out t = file_out s @ [x]" "m_i t = m_i s + 1"
    using ready_cycle [of s x "cs @ [c]" sz] by auto
  then obtain bs u where u: "run_boxes sz bs t = u" "ready u" "rest_in u = [c]" "file_out u = file_out t @ cs" "m_i u = sz - 1"
    using Cons.IH [of t] Cons.prems by auto
  show ?case
  proof (intro exI conjI)
    show "run_boxes sz ([True, True, False, False, False, False, True] @ bs) s = u"
      by (simp only: run_boxes_append t(1) u(1))
    show "ready u" "rest_in u = [c]" "m_i u = sz - 1" by fact+
    show "file_out u = file_out s @ x # cs" by (simp add: u(4) t(4))
  qed
qed

definition finished :: "cellbox \<Rightarrow> bool" where
  "finished s \<longleftrightarrow> m_pc s = M_Done \<and> h_pc s = H_Done"

text \<open>The last byte: written in time, or overtaken by the signal.\<close>

lemma last_in_time:
  assumes "ready s" "rest_in s = [c]" "m_i s = sz - 1"
  shows "finished (run_boxes sz [True, True, False, False, False, False, True, True, True, False, False, False, False, True] s) \<and>
    file_out (run_boxes sz [True, True, False, False, False, False, True, True, True, False, False, False, False, True] s) =
      file_out s @ [c]"
  using assms by (cases s) (simp add: box_run finished_def)

lemma last_overtaken:
  assumes "ready s" "rest_in s = [c]" "m_i s = sz - 1"
  shows "finished (run_boxes sz [True, True, True, True, False, False, False, False, True, True] s) \<and>
    file_out (run_boxes sz [True, True, True, True, False, False, False, False, True, True] s) = file_out s"
  using assms by (cases s) (simp add: box_run finished_def)

subsection \<open>Properties\<close>

text \<open>C14: whenever both programs have ended, in whatever order they ran, the output is the input file
  or the input file without its last byte; no byte is lost in the middle and none is written twice.\<close>
theorem at_most_last_byte_lost:
  assumes "finished (run_boxes (int (length f)) bs (boxes f c))"
  shows "file_out (run_boxes (int (length f)) bs (boxes f c)) \<in> {f, butlast f}"
  using box_inv_run [OF box_inv_start, of f bs c] assms by (auto simp: box_inv_def finished_def)

definition good_schedule :: "bool list" where
  "good_schedule = [False, True] @ [True, True, False, False, False, False, True, True, True, False, False, False, False, True]"

theorem at_most_last_byte_lost_witness:
  "file_out (run_boxes 1 good_schedule (boxes ''x'' nul)) \<in> {''x'', butlast ''x''}"
proof -
  have "finished (run_boxes (int (length ''x'')) good_schedule (boxes ''x'' nul))"
    unfolding good_schedule_def run_boxes_append
    using last_in_time [OF ready_start(1), of 1 "''x''" nul "CHR ''x''"] ready_start [of 1 "''x''" nul] by simp
  then show ?thesis using at_most_last_byte_lost by fastforce
qed

text \<open>C32: the order decides: for every file that is not empty there is a run that copies it and a run
  that loses its last byte, because \<open>main\<close> sends the signal without waiting for that byte.\<close>
theorem last_byte_race:
  assumes "f \<noteq> []"
  shows "(\<exists>bs. finished (run_boxes (int (length f)) bs (boxes f c)) \<and>
            file_out (run_boxes (int (length f)) bs (boxes f c)) = f) \<and>
         (\<exists>bs. finished (run_boxes (int (length f)) bs (boxes f c)) \<and>
            file_out (run_boxes (int (length f)) bs (boxes f c)) = butlast f)"
proof -
  obtain g d where f: "f = g @ [d]" using assms by (metis rev_exhaust)
  let ?sz = "int (length f)" let ?s = "run_boxes ?sz [False, True] (boxes f c)"
  have "rest_in ?s = g @ [d]" "m_i ?s = int (length (file_out ?s))"
    "?sz = int (length (file_out ?s)) + int (length g) + 1"
    by (simp_all add: ready_start f)
  from ready_last [OF ready_start(1) this]
  obtain bs t where t: "run_boxes ?sz bs ?s = t" "ready t" "rest_in t = [d]" "m_i t = ?sz - 1"
    and g: "file_out t = g"
    by (auto simp: ready_start)
  have r: "run_boxes ?sz ([False, True] @ bs @ cs) (boxes f c) = run_boxes ?sz cs t" for cs
    by (simp only: run_boxes_append t(1))
  note last_in_time [OF t(2-4), folded r] last_overtaken [OF t(2-4), folded r]
  then show ?thesis unfolding g f butlast_snoc by blast
qed

theorem last_byte_race_witness:
  "\<exists>bs. file_out (run_boxes (int (length ''ab'')) bs (boxes ''ab'' nul)) = butlast ''ab''"
proof -
  have "''ab'' \<noteq> []" by simp
  from last_byte_race [OF this, of nul] show ?thesis by blast
qed

end
