(* ===== verification/Daemon.thy ===== *)
theory Daemon
  imports FileSys Proc
begin

section \<open>The backup daemon: \<open>daemon/main.c\<close> and \<open>daemon/controller.c\<close>\<close>

text \<open>
  The state of the daemon: the files, the lines it has logged, its inotify instance (the watched
  directories, by watch descriptor from 1), the arrays \<open>wds\<close> and \<open>backs\<close> of 100 pointers, the two
  directories it was given, the segments with the keys 24 and 28 through which a controller names new
  directories, and the signal handlers it is in. A function returns the new state, or how it failed.
  \<open>fuel\<close> bounds the depth of the recursion through directories; running out of it is \<open>Blocked\<close>,
  and \<open>tree_is_mirrored\<close> shows that the depth of the directory is enough. System calls take effect
  at once, files and directories are readable and writable, and a directory is told by its path.
\<close>

record daemon =
  files :: fsys
  log_open :: bool
  logged :: "(string \<times> arg list) list"
  watches :: "string option list"
  wds :: "string option list"
  backs :: "string option list"
  path_argv1 :: string
  path_argv2 :: string
  shm24 :: "string option"
  shm28 :: "string option"
  handlers :: "string list"
  pending :: "string list"
  mypid :: int

text \<open>\<open>LOG\<close> opens the log for every line and does not test whether that worked. The final line feed
  of the formats is left out.\<close>

definition LOG :: "string \<Rightarrow> arg list \<Rightarrow> daemon \<Rightarrow> daemon res" where
  "LOG fmt params d = (if log_open d then Inr (d\<lparr>logged := logged d @ [(fmt, params)]\<rparr>) else Inl Null_deref)"

text \<open>Building a string with \<open>strcpy\<close> and \<open>strcat\<close> in a buffer of \<open>n\<close> bytes.\<close>

definition fill :: "nat \<Rightarrow> string \<Rightarrow> string res" where
  "fill n s = (if length s < n then Inr s else Inl Overflow)"

subsection \<open>Copying and watching\<close>

definition copy_file :: "string \<Rightarrow> string \<Rightarrow> fsys \<Rightarrow> fsys" where
  "copy_file path11 path22 fs =
     (case creat path22 fs of
        (False, fs') \<Rightarrow> fs'
      | (True, fs') \<Rightarrow> (case map_of fs path11 of
            Some (File c) \<Rightarrow> write_file path22 c fs'
          | _ \<Rightarrow> fs'))"

definition copy :: "string \<Rightarrow> string \<Rightarrow> nat \<Rightarrow> string \<Rightarrow> daemon \<Rightarrow> daemon res" where
  "copy path1 path2 len name d =
     rbind (fill (length path1 + len + 15) (join path1 name)) (\<lambda>path11.
     rbind (fill (length path2 + len + 15) (join path2 name)) (\<lambda>path22.
     LOG ''%s -> %s'' [S path11, S path22] (d\<lparr>files := copy_file path11 path22 (files d)\<rparr>)))"

text \<open>The descriptor of a directory: the one it has already, or the next number.\<close>

definition inotify_add_watch :: "string \<Rightarrow> daemon \<Rightarrow> (nat \<times> daemon) option" where
  "inotify_add_watch p d =
     (if map_of (files d) p = None then None
      else Some (length (takeWhile (\<lambda>w. w \<noteq> Some p) (watches d)) + 1,
                 if Some p \<in> set (watches d) then d else d\<lparr>watches := watches d @ [Some p]\<rparr>))"

definition add_inotify :: "string \<Rightarrow> string \<Rightarrow> daemon \<Rightarrow> daemon res" where
  "add_inotify path1 path2 d =
     (case inotify_add_watch path1 d of
        None \<Rightarrow> LOG ''%s inotify_add_watch %s'' [S path1, Errno_text] d
      | Some (wd_cur, d) \<Rightarrow>
          if length (wds d) \<le> wd_cur \<or> length (backs d) \<le> wd_cur then Inl Overflow
          else LOG ''%s (wd=%d) inotify was initialized'' [S path1, I (int wd_cur)]
                 (d\<lparr>wds := (wds d)[wd_cur := Some path1], backs := (backs d)[wd_cur := Some path2]\<rparr>))"

definition dot :: string where
  "dot = ''.''"

definition dotdot :: string where
  "dotdot = ''..''"

definition make_dir :: "string \<Rightarrow> daemon \<Rightarrow> daemon res" where
  "make_dir path2 d =
     (case mkdir path2 (files d) of (ok, fs) \<Rightarrow>
        rbind (if ok then Inr (d\<lparr>files := fs\<rparr>) else LOG ''mkdir: %s'' [Errno_text] d)
          (LOG ''mkdir %s'' [S path2]))"

text \<open>\<open>monitor_directory\<close> and its loop over the entries \<open>readdir\<close> returns.\<close>

function (sequential) monitor_directory :: "nat \<Rightarrow> string \<Rightarrow> string \<Rightarrow> daemon \<Rightarrow> (int \<times> daemon) res"
  and monitor_entries :: "nat \<Rightarrow> string \<Rightarrow> string \<Rightarrow> string list \<Rightarrow> daemon \<Rightarrow> daemon res" where
  "monitor_directory 0 path1 path2 d = Inl Blocked"
| "monitor_directory (Suc fuel) path1 path2 d =
     (if path1 = path_argv2 d then
        rbind (LOG ''monitor_directory detected backup dir %s'' [S path1] d) (\<lambda>d. Inr (- 1, d))
      else if \<not> is_dir (files d) path1 then
        rbind (LOG ''%s monitor_directory error %s'' [S path1, Errno_text] d) (\<lambda>d. Inr (- 1, d))
      else
        rbind (make_dir path2 d) (\<lambda>d.
        rbind (add_inotify path1 path2 d) (\<lambda>d.
        rbind (monitor_entries fuel path1 path2 (dot # dotdot # listing (files d) path1) d) (\<lambda>d.
        Inr (0, d)))))"
| "monitor_entries fuel path1 path2 [] d = Inr d"
| "monitor_entries fuel path1 path2 (e # es) d =
     (if e = dot \<or> e = dotdot then monitor_entries fuel path1 path2 es d
      else if is_dir (files d) (join path1 e) then
        rbind (fill (length path1 + length e + 5) (join path1 e)) (\<lambda>path11.
        rbind (fill (length path2 + length e + 5) (join path2 e)) (\<lambda>path22.
        rbind (monitor_directory fuel path11 path22 d) (\<lambda>(_, d).
        monitor_entries fuel path1 path2 es d)))
      else
        rbind (copy path1 path2 (length e) e d) (monitor_entries fuel path1 path2 es))"
  by pat_completeness auto

termination
  by (relation "measures [\<lambda>x. case x of Inl (n, _) \<Rightarrow> n | Inr (n, _) \<Rightarrow> n,
                          \<lambda>x. case x of Inl _ \<Rightarrow> 0 | Inr (_, _, _, es, _) \<Rightarrow> Suc (length es)]") auto

subsection \<open>Events\<close>

record event =
  wd :: int
  created :: bool
  modified :: bool
  moved_to :: bool
  ev_len :: nat
  ev_name :: string

text \<open>What \<open>IN_CREATE\<close> and \<open>IN_MOVED_TO\<close> have in common. The buffer for the path of the backup
  has the size of the path in the working directory.\<close>

definition new_entry :: "nat \<Rightarrow> string \<Rightarrow> string \<Rightarrow> string \<Rightarrow> event \<Rightarrow> daemon \<Rightarrow> daemon res" where
  "new_entry fuel fmt w b ev d =
     rbind (fill (length w + ev_len ev + 5) (join w (ev_name ev))) (\<lambda>path11.
     rbind (LOG fmt [S path11] d) (\<lambda>d.
       if is_dir (files d) path11 then
         rbind (fill (length w + ev_len ev + 5) (join b (ev_name ev))) (\<lambda>path22.
         rbind (monitor_directory fuel path11 path22 d) (\<lambda>(_, d). Inr d))
       else copy w b (ev_len ev) (ev_name ev) d))"

definition on_created :: "nat \<Rightarrow> string \<Rightarrow> string \<Rightarrow> event \<Rightarrow> daemon \<Rightarrow> daemon res" where
  "on_created fuel w b ev d = (if created ev then new_entry fuel ''created %s'' w b ev d else Inr d)"

definition on_modified :: "string \<Rightarrow> string \<Rightarrow> event \<Rightarrow> daemon \<Rightarrow> daemon res" where
  "on_modified w b ev d =
     (if modified ev then
        rbind (LOG ''modified %s/%s'' [S w, S (ev_name ev)] d) (copy w b (ev_len ev) (ev_name ev))
      else Inr d)"

definition on_moved_to :: "nat \<Rightarrow> string \<Rightarrow> string \<Rightarrow> event \<Rightarrow> daemon \<Rightarrow> daemon res" where
  "on_moved_to fuel w b ev d =
     (if moved_to ev then
        rbind (LOG ''renamed %s/%s'' [S w, S (ev_name ev)] d) (new_entry fuel ''moved_to dir %s'' w b ev)
      else Inr d)"

text \<open>The body of the loop over the events of one read. An event without a name (the end of a watch,
  a lost event) has no bytes where the code looks for the name.\<close>

definition handle_event :: "nat \<Rightarrow> event \<Rightarrow> daemon \<Rightarrow> daemon res" where
  "handle_event fuel ev d =
     (if wd ev < 0 \<or> int (length (wds d)) \<le> wd ev then Inl Segv
      else case (wds d ! nat (wd ev), backs d ! nat (wd ev)) of
        (Some w, Some b) \<Rightarrow>
          if ev_len ev = 0 then Inl Indeterminate
          else
            rbind (fill (length w + ev_len ev + 5) (join w (ev_name ev))) (\<lambda>check.
              if check = path_argv2 d then LOG ''monitor_events detected backup dir %s'' [S check] d
              else rbind (on_created fuel w b ev d) (\<lambda>d.
                   rbind (on_modified w b ev d) (on_moved_to fuel w b ev)))
      | _ \<Rightarrow> Inl Null_deref)"

fun handle_events :: "nat \<Rightarrow> event list \<Rightarrow> daemon \<Rightarrow> daemon res" where
  "handle_events fuel [] d = Inr d"
| "handle_events fuel (ev # evs) d = rbind (handle_event fuel ev d) (handle_events fuel evs)"

subsection \<open>Signals\<close>

text \<open>
  \<open>daemon\<close> waits in \<open>read\<close> for what happens next: the users change files, the kernel reports
  events, a call fails, or a signal arrives. A signal whose handler is running is blocked and stays
  pending; the handlers for new directories end with \<open>monitor_events\<close>, so they run until that
  returns. \<open>watches\<close> loses the directories that are no more.
\<close>

datatype happening = Changed fsys | Events "event list" | Read_fails | Read_empty | Signal string

datatype status = Waiting | Ended | Killed

definition SIGINT :: string where
  "SIGINT = ''SIGINT''"

definition SIGUSR1 :: string where
  "SIGUSR1 = ''SIGUSR1''"

definition SIGUSR2 :: string where
  "SIGUSR2 = ''SIGUSR2''"

definition kill_all :: "daemon \<Rightarrow> (status \<times> daemon) res" where
  "kill_all d = rbind (LOG ''%d daemon suspended'' [I (mypid d)] d) (\<lambda>d. Inr (Killed, d))"

text \<open>\<open>strcpy\<close> into one of the two buffers of 100 bytes \<open>main\<close> allocates, from the segment with the
  given key; without a segment \<open>shmat\<close> returns -1, which is no address.\<close>

definition PATHSZ :: nat where
  "PATHSZ = 100"

definition new_dir :: "string option \<Rightarrow> string res" where
  "new_dir seg = (case seg of None \<Rightarrow> Inl Segv | Some p \<Rightarrow> fill PATHSZ p)"

definition watch_again :: "nat \<Rightarrow> daemon \<Rightarrow> (status \<times> daemon) res" where
  "watch_again fuel d =
     rbind (monitor_directory fuel (path_argv1 d) (path_argv2 d) (d\<lparr>watches := []\<rparr>)) (\<lambda>(_, d). Inr (Waiting, d))"

definition change_backup :: "nat \<Rightarrow> daemon \<Rightarrow> (status \<times> daemon) res" where
  "change_backup fuel d =
     rbind (LOG ''%d signal SIGUSR1 accepted'' [I (mypid d)] d) (\<lambda>d.
     rbind (new_dir (shm24 d)) (\<lambda>p.
     rbind (LOG ''directory changed, new backup directory: %s'' [S p] (d\<lparr>path_argv2 := p, shm24 := None\<rparr>))
       (watch_again fuel)))"

definition change_work :: "nat \<Rightarrow> daemon \<Rightarrow> (status \<times> daemon) res" where
  "change_work fuel d =
     rbind (LOG ''%d signal SIGUSR2 accepted'' [I (mypid d)] d) (\<lambda>d.
     rbind (new_dir (shm28 d)) (\<lambda>p.
     rbind (LOG ''directory changed, new working directory: %s'' [S p] (d\<lparr>path_argv1 := p, shm28 := None\<rparr>))
       (watch_again fuel)))"

definition deliver :: "nat \<Rightarrow> string \<Rightarrow> daemon \<Rightarrow> (status \<times> daemon) res" where
  "deliver fuel sig d =
     (if sig \<in> set (handlers d) then Inr (Waiting, d\<lparr>pending := List.insert sig (pending d)\<rparr>)
      else let d = d\<lparr>handlers := sig # handlers d\<rparr>
           in if sig = SIGINT then kill_all d
              else if sig = SIGUSR1 then change_backup fuel d
              else if sig = SIGUSR2 then change_work fuel d
              else Inr (Killed, d))"

text \<open>\<open>monitor_events\<close> returns when a read returns nothing: to \<open>main\<close>, which ends, or to the handler
  that called it, which unblocks its signal.\<close>

definition events_end :: "nat \<Rightarrow> daemon \<Rightarrow> (status \<times> daemon) res" where
  "events_end fuel d =
     rbind (LOG ''%d inotify was stopped'' [I (mypid d)] d) (\<lambda>d.
       case handlers d of
         [] \<Rightarrow> Inr (Ended, d)
       | sig # hs \<Rightarrow>
           if sig \<in> set (pending d)
           then deliver fuel sig (d\<lparr>handlers := hs, pending := remove1 sig (pending d)\<rparr>)
           else Inr (Waiting, d\<lparr>handlers := hs\<rparr>))"

definition users_change :: "fsys \<Rightarrow> daemon \<Rightarrow> daemon" where
  "users_change fs d = d\<lparr>files := fs,
     watches := map (\<lambda>w. case w of None \<Rightarrow> None | Some p \<Rightarrow> if is_dir fs p then Some p else None) (watches d)\<rparr>"

fun happens :: "nat \<Rightarrow> happening \<Rightarrow> daemon \<Rightarrow> (status \<times> daemon) res" where
  "happens fuel (Changed fs) d = Inr (Waiting, users_change fs d)"
| "happens fuel (Events evs) d = rbind (handle_events fuel evs d) (\<lambda>d. Inr (Waiting, d))"
| "happens fuel Read_fails d = rbind (LOG ''read, monitor_events, %s'' [Errno_text] d) (\<lambda>d. Inr (Waiting, d))"
| "happens fuel Read_empty d = events_end fuel d"
| "happens fuel (Signal sig) d = deliver fuel sig d"

fun monitor_events :: "nat \<Rightarrow> happening list \<Rightarrow> daemon \<Rightarrow> (status \<times> daemon) res" where
  "monitor_events fuel [] d = Inr (Waiting, d)"
| "monitor_events fuel (h # hs) d =
     rbind (happens fuel h d) (\<lambda>(st, d). if st = Waiting then monitor_events fuel hs d else Inr (st, d))"

text \<open>\<open>main\<close> up to \<open>monitor_events\<close>: \<open>Running\<close> when it gets there. \<open>daemonized\<close> and \<open>inotify_ok\<close>
  tell whether \<open>daemon\<close> and \<open>inotify_init\<close> succeed.\<close>

definition WATCHES :: nat where
  "WATCHES = 100"

definition main_daemon :: "nat \<Rightarrow> bool \<Rightarrow> bool \<Rightarrow> string list \<Rightarrow> daemon \<Rightarrow> (ret \<times> daemon) res" where
  "main_daemon fuel daemonized inotify_ok argv d =
     (if length argv < 3 then Inr (Ret (- 1), d)
      else
        rbind (fill PATHSZ (argv ! 1)) (\<lambda>p1.
        rbind (fill PATHSZ (argv ! 2)) (\<lambda>p2.
        if p1 = p2 then rbind (LOG ''%s %s argv[1]==argv[2]'' [S p1, S p2] d) (\<lambda>d. Inr (Ret (- 1), d))
        else if \<not> daemonized then Inr (Ret (- 1), d)
        else
          rbind (LOG ''current backup directory is %s'' [S p2]
            (d\<lparr>path_argv1 := p1, path_argv2 := p2, wds := replicate WATCHES None, backs := replicate WATCHES None\<rparr>)) (\<lambda>d.
          rbind (LOG ''current working directory is %s'' [S p1] d) (\<lambda>d.
          rbind (LOG ''main pid is %d'' [I (mypid d)] d) (\<lambda>d.
          if \<not> inotify_ok then rbind (LOG ''inotify_init: %s'' [Errno_text] d) (\<lambda>d. Inr (Ret (- 1), d))
          else rbind (monitor_directory fuel p1 p2 (d\<lparr>watches := []\<rparr>)) (\<lambda>(_, d). Inr (Running, d))))))))"

subsection \<open>The controller\<close>

text \<open>
  \<open>main\<close> of \<open>controller.c\<close>: the pid the daemon has left in the segment with key 42, the segments 24
  and 28 before and after, the signals sent and the lines printed. A new segment has a page.
\<close>

definition PAGE :: nat where
  "PAGE = 4096"

definition pid_of :: "int option \<Rightarrow> int res" where
  "pid_of seg = (case seg of None \<Rightarrow> Inl Segv | Some p \<Rightarrow> Inr p)"

definition arg2 :: "string list \<Rightarrow> string res" where
  "arg2 argv = (if length argv < 3 then Inl Null_deref else if PAGE \<le> length (argv ! 2) then Inl Segv else Inr (argv ! 2))"

definition controller :: "string list \<Rightarrow> int option \<Rightarrow> string option \<Rightarrow> string option \<Rightarrow>
    (string option \<times> string option \<times> (int \<times> string) list \<times> (string \<times> arg list) list) res" where
  "controller argv seg42 seg24 seg28 =
     (if length argv < 2 then Inl Null_deref
      else let c = (argv ! 1 @ [nul]) ! 0
      in if c = CHR ''k'' then
           rbind (pid_of seg42) (\<lambda>pid. Inr (seg24, seg28, [(pid, SIGINT)], [(''%d daemon terminated'', [I pid])]))
         else if c = CHR ''b'' then
           rbind (arg2 argv) (\<lambda>p. rbind (pid_of seg42) (\<lambda>pid.
             Inr (Some p, seg28, [(pid, SIGUSR1)], [(''backup directory changed to %s'', [S p])])))
         else if c = CHR ''w'' then
           rbind (arg2 argv) (\<lambda>p. rbind (pid_of seg42) (\<lambda>pid.
             Inr (seg24, Some p, [(pid, SIGUSR2)], [(''working directory changed to %s'', [S p])])))
         else if c = CHR ''p'' then
           rbind (pid_of seg42) (\<lambda>pid. Inr (seg24, seg28, [], [(''pid is %d'', [I pid])]))
         else Inr (seg24, seg28, [], []))"

text \<open>The controller run beside the daemon: the daemon finds the segments and gets the signals.\<close>

definition command_daemon :: "nat \<Rightarrow> string list \<Rightarrow> daemon \<Rightarrow> (status \<times> daemon) res" where
  "command_daemon fuel argv d =
     rbind (controller argv (Some (mypid d)) (shm24 d) (shm28 d)) (\<lambda>(seg24, seg28, sent, _).
       monitor_events fuel (map (\<lambda>(_, sig). Signal sig) sent) (d\<lparr>shm24 := seg24, shm28 := seg28\<rparr>))"

end
