(* ===== verification/DaemonMirror.thy ===== *)
theory DaemonMirror
  imports Daemon
begin

section \<open>The first backup: a tree is mirrored\<close>

text \<open>
  What the daemon does when it starts: a directory tree, its image in a list of paths, and the effect
  of \<open>monitor_directory\<close> on files, watches and the two arrays, by induction on the depth.
\<close>

subsection \<open>Trees\<close>

datatype tree = Leaf string | Node "(string \<times> tree) list"

fun place :: "string \<Rightarrow> tree \<Rightarrow> fsys" where
  "place p (Leaf c) = [(p, File c)]"
| "place p (Node ts) = (p, Dir) # concat (map (\<lambda>(n, t). place (join p n) t) ts)"

fun dirs :: "string \<Rightarrow> tree \<Rightarrow> string list" where
  "dirs p (Leaf c) = []"
| "dirs p (Node ts) = p # concat (map (\<lambda>(n, t). dirs (join p n) t) ts)"

fun depth :: "tree \<Rightarrow> nat" where
  "depth (Leaf c) = 0"
| "depth (Node ts) = Suc (foldr max (map (\<lambda>(n, t). depth t) ts) 0)"

text \<open>The tree \<open>t\<close> is what the file system holds at \<open>p\<close>.\<close>

fun stored :: "fsys \<Rightarrow> string \<Rightarrow> tree \<Rightarrow> bool" where
  "stored fs p (Leaf c) \<longleftrightarrow> map_of fs p = Some (File c)"
| "stored fs p (Node ts) \<longleftrightarrow> map_of fs p = Some Dir \<and> listing fs p = map fst ts \<and> distinct (map fst ts) \<and>
     list_all (\<lambda>(n, t). n \<noteq> dot \<and> n \<noteq> dotdot \<and> stored fs (join p n) t) ts"

lemma depth_member: "(n, t) \<in> set ts \<Longrightarrow> depth t \<le> foldr max (map (\<lambda>(n, t). depth t) ts) 0"
  by (induction ts) force+

lemma dirs_place: "dirs p t = map fst (filter (\<lambda>(q, x). x = Dir) (place p t))"
proof (induction p t rule: dirs.induct)
  case (2 p ts)
  have "concat (map (\<lambda>(n, t). dirs (join p n) t) us) =
      map fst (filter (\<lambda>(q, x). x = Dir) (concat (map (\<lambda>(n, t). place (join p n) t) us)))"
    if "set us \<subseteq> set ts" for us
    using that 2 by (induction us) fastforce+
  from this [OF subset_refl] show ?case by simp
qed simp

lemma length_dirs: "length (dirs p t) = length (dirs q t)"
proof (induction p t arbitrary: q rule: dirs.induct)
  case (2 p ts)
  have "map (\<lambda>(n, t). length (dirs (join p n) t)) ts = map (\<lambda>(n, t). length (dirs (join q n) t)) ts"
  proof (rule map_cong [OF refl])
    fix x assume x: "x \<in> set ts"
    obtain n t where "x = (n, t)" by (cases x)
    moreover from this have "length (dirs (join p n) t) = length (dirs (join q n) t)" by (intro 2 [OF x]) simp
    ultimately show "(case x of (n, t) \<Rightarrow> length (dirs (join p n) t)) = (case x of (n, t) \<Rightarrow> length (dirs (join q n) t))"
      by simp
  qed
  then show ?case by (simp add: length_concat comp_def case_prod_beta cong: map_cong)
qed simp

lemma place_below: "(k, x) \<in> set (place p t) \<Longrightarrow> below p k"
proof (induction p t rule: place.induct)
  case (2 p ts)
  from "2.prems" consider "k = p" | n t where "(n, t) \<in> set ts" "(k, x) \<in> set (place (join p n) t)" by auto
  then show ?case
  proof cases
    case 2
    then have "below (join p n) k" using "2.IH" by blast
    then show ?thesis by (rule below_trans [OF below_join [OF below_refl]])
  qed simp
qed simp

lemma dirs_below: "k \<in> set (dirs p t) \<Longrightarrow> below p k"
  unfolding dirs_place by (auto dest: place_below)

lemma stored_names: "stored fs p (Node ts) \<Longrightarrow> n \<in> set (map fst ts) \<Longrightarrow> n \<noteq> [] \<and> slash \<notin> set n"
proof -
  assume "stored fs p (Node ts)" "n \<in> set (map fst ts)"
  then have "n \<in> set (listing fs p)" by simp
  then show ?thesis by (auto simp: listing_def child_def)
qed

lemma stored_append: "stored fs p t \<Longrightarrow> (\<And>k. k \<in> set (map fst gs) \<Longrightarrow> \<not> below p k) \<Longrightarrow> stored (fs @ gs) p t"
proof (induction fs p t rule: stored.induct)
  case (1 fs p c)
  then show ?case by (simp add: map_of_append_left del: map_of_append)
next
  case (2 fs p ts)
  have "listing (fs @ gs) p = listing fs p" using "2.prems"(2) below_child by (intro listing_apart) blast
  moreover have "list_all (\<lambda>(n, t). n \<noteq> dot \<and> n \<noteq> dotdot \<and> stored (fs @ gs) (join p n) t) ts"
    unfolding list_all_iff
  proof clarify
    fix n t assume m: "(n, t) \<in> set ts"
    then have "stored fs (join p n) t" "n \<noteq> dot" "n \<noteq> dotdot" using "2.prems"(1) by (auto simp: list_all_iff)
    moreover have "\<not> below (join p n) k" if "k \<in> set (map fst gs)" for k
      using "2.prems"(2) [OF that] below_trans [OF below_join [OF below_refl]] by blast
    ultimately show "n \<noteq> dot \<and> n \<noteq> dotdot \<and> stored (fs @ gs) (join p n) t"
      using "2.IH" [OF m refl] by blast
  qed
  ultimately show ?case using "2.prems"(1) by (simp add: map_of_append_left del: map_of_append)
qed

lemma names_apart: "n \<noteq> m \<Longrightarrow> slash \<notin> set n \<Longrightarrow> slash \<notin> set m \<Longrightarrow> apart (join p n) (join p m)"
proof -
  have "\<not> below (join p n) (join p m)" if "n \<noteq> m" "slash \<notin> set n" "slash \<notin> set m" for n m
  proof
    assume "below (join p n) (join p m)"
    then obtain r where r: "m @ [slash] = n @ slash # r"
      unfolding below_def join_def by (auto elim: prefixE)
    have "takeWhile (\<lambda>c. c \<noteq> slash) (m @ [slash]) = m" "takeWhile (\<lambda>c. c \<noteq> slash) (n @ slash # r) = n"
      using that by (intro takeWhile_append_stop; auto)+
    then show False using r that(1) by simp
  qed
  then show "n \<noteq> m \<Longrightarrow> slash \<notin> set n \<Longrightarrow> slash \<notin> set m \<Longrightarrow> apart (join p n) (join p m)"
    by (auto simp: apart_def)
qed

subsection \<open>Effects\<close>

definition overwrite :: "'a list \<Rightarrow> nat \<Rightarrow> 'a list \<Rightarrow> 'a list" where
  "overwrite xs i ys = take i xs @ ys @ drop (i + length ys) xs"

lemma overwrite_empty [simp]: "overwrite xs i [] = xs"
  by (simp add: overwrite_def)

lemma overwrite_one: "i < length xs \<Longrightarrow> xs[i := y] = overwrite xs i [y]"
  by (simp add: overwrite_def upd_conv_take_nth_drop)

lemma overwrite_twice:
  assumes "i + length ys \<le> length xs"
  shows "overwrite (overwrite xs i ys) (i + length ys) zs = overwrite xs i (ys @ zs)"
proof -
  have "length (take i xs) = i" using assms by simp
  then show ?thesis by (simp add: overwrite_def ac_simps)
qed

lemma length_overwrite: "i + length ys \<le> length xs \<Longrightarrow> length (overwrite xs i ys) = length xs"
  by (auto simp: overwrite_def min_def)

text \<open>Files \<open>new\<close> have come, the directories \<open>ps\<close> are watched, with the backups \<open>qs\<close>.\<close>

definition effect :: "daemon \<Rightarrow> daemon \<Rightarrow> fsys \<Rightarrow> string list \<Rightarrow> string list \<Rightarrow> bool" where
  "effect d d' new ps qs \<longleftrightarrow> length ps = length qs \<and>
     files d' = files d @ new \<and> watches d' = watches d @ map Some ps \<and>
     wds d' = overwrite (wds d) (Suc (length (watches d))) (map Some ps) \<and>
     backs d' = overwrite (backs d) (Suc (length (watches d))) (map Some qs) \<and>
     log_open d' = log_open d \<and> path_argv1 d' = path_argv1 d \<and> path_argv2 d' = path_argv2 d \<and>
     handlers d' = handlers d \<and> shm24 d' = shm24 d \<and> shm28 d' = shm28 d \<and> mypid d' = mypid d"

definition room :: "daemon \<Rightarrow> nat \<Rightarrow> bool" where
  "room d k \<longleftrightarrow> length (watches d) + k < length (wds d)"

definition tables :: "daemon \<Rightarrow> bool" where
  "tables d \<longleftrightarrow> length (wds d) = length (backs d) \<and> room d 0"

lemma effect_trans:
  assumes "effect d d' a ps qs" "effect d' d'' b ps' qs'" "tables d" "room d (length ps)"
  shows "effect d d'' (a @ b) (ps @ ps') (qs @ qs')"
  using assms overwrite_twice [of "Suc (length (watches d))" "map Some ps" "wds d" "map Some ps'"]
    overwrite_twice [of "Suc (length (watches d))" "map Some qs" "backs d" "map Some qs'"]
  by (simp add: effect_def room_def tables_def)

lemma effect_tables: "effect d d' a ps qs \<Longrightarrow> tables d \<Longrightarrow> room d (length ps) \<Longrightarrow> tables d'"
  by (simp add: effect_def room_def tables_def length_overwrite)

lemma effect_room: "effect d d' a ps qs \<Longrightarrow> room d (length ps) \<Longrightarrow> room d' k \<longleftrightarrow> room d (length ps + k)"
  by (simp add: effect_def room_def length_overwrite ac_simps)

text \<open>The outcome: the effect, or a write behind the end of the arrays.\<close>

definition outcome :: "daemon \<Rightarrow> daemon res \<Rightarrow> fsys \<Rightarrow> string list \<Rightarrow> string list \<Rightarrow> bool" where
  "outcome d r new ps qs \<longleftrightarrow>
     (if room d (length ps) then \<exists>d'. r = Inr d' \<and> effect d d' new ps qs else r = Inl Overflow)"

lemma outcomeI: "r = Inr d' \<Longrightarrow> effect d d' new ps qs \<Longrightarrow> room d (length ps) \<Longrightarrow> outcome d r new ps qs"
  by (simp add: outcome_def)

lemma outcome_bind:
  assumes "outcome d r a ps qs" "tables d" "\<And>d'. r = Inr d' \<Longrightarrow> effect d d' a ps qs \<Longrightarrow> tables d' \<Longrightarrow> outcome d' (f d') b ps' qs'"
  shows "outcome d (rbind r f) (a @ b) (ps @ ps') (qs @ qs')"
proof (cases "room d (length ps)")
  case True
  then obtain d' where d': "r = Inr d'" "effect d d' a ps qs" using assms(1) by (auto simp: outcome_def)
  have t: "tables d'" using effect_tables [OF d'(2) assms(2) True] .
  from assms(3) [OF d' t] show ?thesis
    using effect_room [OF d'(2) True] effect_trans [OF d'(2) _ assms(2) True] d'(1) by (auto simp: outcome_def)
next
  case False
  then have "\<not> room d (length ps + k)" for k by (simp add: room_def)
  then show ?thesis using assms(1) False by (simp add: outcome_def)
qed

lemma room_0: "tables d \<Longrightarrow> room d (length [])"
  by (simp add: tables_def)

lemma log_outcome: "log_open d \<Longrightarrow> tables d \<Longrightarrow> outcome d (LOG fmt params d) [] [] []"
  by (simp add: LOG_def effect_def outcome_def tables_def)

text \<open>A file is copied to a place that is free, in a directory that is there.\<close>

lemma copy_new:
  assumes "log_open d" "tables d" "map_of (files d) (join p n) = Some (File c)" "length n \<le> len"
    and "join q n \<notin> set (map fst (files d))" "has_parent (files d) (join q n)"
  shows "outcome d (copy p q len n d) [(join q n, File c)] [] []"
  using assms create_and_write [OF assms(5,6)]
  by (simp add: copy_def copy_file_def fill_def LOG_def effect_def outcome_def tables_def)

lemma make_dir_new:
  assumes "log_open d" "tables d" "q \<notin> set (map fst (files d))" "has_parent (files d) q"
  shows "outcome d (make_dir q d) [(q, Dir)] [] []"
  using assms by (simp add: make_dir_def mkdir_def map_of_fresh LOG_def effect_def outcome_def tables_def)

lemma add_inotify_new:
  assumes "log_open d" "tables d" "map_of (files d) p = Some x" "Some p \<notin> set (watches d)"
  shows "outcome d (add_inotify p q d) [] [p] [q]"
proof -
  have "takeWhile (\<lambda>w. w \<noteq> Some p) (watches d) = watches d"
    using assms(4) by (intro takeWhile_all) auto
  then show ?thesis
    using assms by (simp del: takeWhile_eq_all_conv add: add_inotify_def inotify_add_watch_def LOG_def effect_def
      room_def tables_def outcome_def overwrite_one)
qed

subsection \<open>The recursion\<close>

text \<open>What \<open>monitor_directory\<close> needs to mirror what is at \<open>p\<close> to the free place \<open>q\<close>.\<close>

definition mirrorable :: "daemon \<Rightarrow> string \<Rightarrow> string \<Rightarrow> tree \<Rightarrow> bool" where
  "mirrorable d p q t \<longleftrightarrow> log_open d \<and> stored (files d) p t \<and> apart p q \<and> \<not> below p (path_argv2 d) \<and>
     has_parent (files d) q \<and> (\<forall>k \<in> set (map fst (files d)). \<not> below q k) \<and>
     (\<forall>w. Some w \<in> set (watches d) \<longrightarrow> \<not> below p w) \<and> tables d"

definition mirrors :: "daemon \<Rightarrow> (int \<times> daemon) res \<Rightarrow> string \<Rightarrow> string \<Rightarrow> tree \<Rightarrow> bool" where
  "mirrors d r p q t \<longleftrightarrow> (\<forall>v d'. r = Inr (v, d') \<longrightarrow> v = 0) \<and>
     outcome d (rbind r (\<lambda>(_, d). Inr d)) (place q t) (dirs p t) (dirs q t)"

text \<open>What is left of the mirroring of \<open>Node us\<close> once the entries in front of \<open>ts\<close> are done.\<close>

definition entry_ok :: "daemon \<Rightarrow> string \<Rightarrow> string \<Rightarrow> string \<Rightarrow> tree \<Rightarrow> bool" where
  "entry_ok d p q n t \<longleftrightarrow> n \<noteq> dot \<and> n \<noteq> dotdot \<and> n \<noteq> [] \<and> slash \<notin> set n \<and> stored (files d) (join p n) t \<and>
     (\<forall>k \<in> set (map fst (files d)). \<not> below (join q n) k) \<and>
     (\<forall>w. Some w \<in> set (watches d) \<longrightarrow> \<not> below (join p n) w)"

definition entries_ok :: "daemon \<Rightarrow> string \<Rightarrow> string \<Rightarrow> (string \<times> tree) list \<Rightarrow> bool" where
  "entries_ok d p q ts \<longleftrightarrow> log_open d \<and> apart p q \<and> \<not> below p (path_argv2 d) \<and> is_dir (files d) q \<and>
     distinct (map fst ts) \<and> (\<forall>(n, t) \<in> set ts. entry_ok d p q n t) \<and> tables d"

lemma entry_okD: "entries_ok d p q ts \<Longrightarrow> (n, t) \<in> set ts \<Longrightarrow> entry_ok d p q n t"
  by (auto simp: entries_ok_def)

lemma apart_join: "apart p q \<Longrightarrow> apart (join p n) (join q m)"
proof -
  assume a: "apart p q"
  have "below p (join p n)" "below q (join q m)" by auto
  then show ?thesis using a apart_below below_trans unfolding apart_def by meson
qed

lemma entries_mirrorable:
  assumes "entries_ok d p q ((n, t) # ts)"
  shows "mirrorable d (join p n) (join q n) t"
proof -
  have e: "entry_ok d p q n t" using assms by (simp add: entries_ok_def)
  have "has_parent (files d) (join q n)"
    using assms e by (intro has_parentI) (simp_all add: entries_ok_def is_dir_def entry_ok_def)
  moreover have "\<not> below (join p n) (path_argv2 d)"
    using assms below_trans [OF below_join [OF below_refl]] unfolding entries_ok_def by blast
  ultimately show ?thesis
    using assms e apart_join by (simp add: entries_ok_def entry_ok_def mirrorable_def)
qed

text \<open>Going on with the next entry: what has come is below the entry that is done.\<close>

lemma entry_ok_next:
  assumes "entry_ok d p q n' u" "n' \<noteq> n" "slash \<notin> set n" "apart p q"
    and "effect d d' (place (join q n) t) (dirs (join p n) t) (dirs (join q n) t)"
  shows "entry_ok d' p q n' u"
proof -
  have new: "below (join q n) k" if "k \<in> set (map fst (place (join q n) t))" for k
    using that place_below by fastforce
  have "slash \<notin> set n'" using assms(1) by (simp add: entry_ok_def)
  then have a: "apart (join r n) (join r n')" for r using names_apart assms(2,3) by metis
  have s: "stored (files d @ place (join q n) t) (join p n') u"
  proof (rule stored_append)
    show "stored (files d) (join p n') u" using assms(1) by (simp add: entry_ok_def)
    show "\<not> below (join p n') k" if "k \<in> set (map fst (place (join q n) t))" for k
      using new [OF that] apart_below [OF apart_join [OF assms(4)]] by blast
  qed
  have k: "\<not> below (join q n') k" if "k \<in> set (map fst (place (join q n) t))" for k
    using new [OF that] a apart_below by blast
  have w: "\<not> below (join p n') w" if "w \<in> set (dirs (join p n) t)" for w
    using dirs_below [OF that] a apart_below by blast
  have "files d' = files d @ place (join q n) t" "set (watches d') = set (watches d) \<union> Some ` set (dirs (join p n) t)"
    using assms(5) by (simp_all add: effect_def)
  then show ?thesis using assms(1) s k w unfolding entry_ok_def by auto
qed

lemma entries_next:
  assumes "entries_ok d p q ((n, t) # ts)" "effect d d' (place (join q n) t) (dirs (join p n) t) (dirs (join q n) t)"
    and "tables d'"
  shows "entries_ok d' p q ts"
proof -
  have "entry_ok d p q n t" using assms(1) by (simp add: entries_ok_def)
  then have s: "slash \<notin> set n" by (simp add: entry_ok_def)
  have "entry_ok d' p q n' u" if m: "(n', u) \<in> set ts" for n' u
  proof (rule entry_ok_next [OF _ _ s _ assms(2)])
    show "entry_ok d p q n' u" using entry_okD [OF assms(1)] m by simp
    have "n' \<in> fst ` set ts" using m by force
    moreover have "n \<notin> fst ` set ts" using assms(1) by (simp add: entries_ok_def)
    ultimately show "n' \<noteq> n" by blast
    show "apart p q" using assms(1) by (simp add: entries_ok_def)
  qed
  moreover have "is_dir (files d') q"
    using assms by (simp add: entries_ok_def is_dir_def effect_def map_of_append_left del: map_of_append)
  ultimately show ?thesis using assms unfolding entries_ok_def effect_def by auto
qed

text \<open>The entries of a directory, when directories less deep are mirrored.\<close>

lemma entries_mirrored:
  assumes "\<And>p q d ts. depth (Node ts) \<le> fuel \<Longrightarrow> mirrorable d p q (Node ts) \<Longrightarrow>
      mirrors d (monitor_directory fuel p q d) p q (Node ts)"
    and "entries_ok d p q ts" "\<forall>(n, t) \<in> set ts. depth t \<le> fuel"
  shows "outcome d (monitor_entries fuel p q (map fst ts) d) (concat (map (\<lambda>(n, t). place (join q n) t) ts))
     (concat (map (\<lambda>(n, t). dirs (join p n) t) ts)) (concat (map (\<lambda>(n, t). dirs (join q n) t) ts))"
  using assms(2,3)
proof (induction ts arbitrary: d)
  case Nil
  then show ?case by (simp add: effect_def outcome_def entries_ok_def tables_def)
next
  case (Cons nt ts)
  obtain n t where nt: "nt = (n, t)" by (cases nt)
  note ok = Cons.prems(1) [unfolded nt]
  have m: "mirrorable d (join p n) (join q n) t" using ok by (rule entries_mirrorable)
  have h: "n \<noteq> dot" "n \<noteq> dotdot" using entry_okD [OF ok, of n t] by (simp_all add: entry_ok_def)
  obtain r where d1: "monitor_entries fuel p q (n # map fst ts) d = rbind r (monitor_entries fuel p q (map fst ts))"
    and e1: "outcome d r (place (join q n) t) (dirs (join p n) t) (dirs (join q n) t)"
  proof (cases t)
    case (Leaf c)
    have "join q n \<notin> set (map fst (files d))" using m by (auto simp: mirrorable_def)
    then have "outcome d (copy p q (length n) n d) [(join q n, File c)] [] []"
      using copy_new [of d p n c "length n" q] m Leaf by (auto simp: mirrorable_def)
    then show ?thesis using that [of "copy p q (length n) n d"] h m Leaf by (simp add: is_dir_def mirrorable_def)
  next
    case (Node us)
    let ?r = "rbind (monitor_directory fuel (join p n) (join q n) d) (\<lambda>(_, d). Inr d)"
    have "depth (Node us) \<le> fuel" using Cons.prems(2) Node by (simp add: nt)
    then have "outcome d ?r (place (join q n) t) (dirs (join p n) t) (dirs (join q n) t)"
      using assms(1) m Node unfolding mirrors_def by blast
    moreover have "monitor_entries fuel p q (n # map fst ts) d = rbind ?r (monitor_entries fuel p q (map fst ts))"
      using h m Node
      by (cases "monitor_directory fuel (join p n) (join q n) d") (simp_all add: is_dir_def mirrorable_def fill_def split: prod.split)
    ultimately show ?thesis using that by blast
  qed
  have "outcome d (rbind r (monitor_entries fuel p q (map fst ts)))
      (place (join q n) t @ concat (map (\<lambda>(n, t). place (join q n) t) ts))
      (dirs (join p n) t @ concat (map (\<lambda>(n, t). dirs (join p n) t) ts))
      (dirs (join q n) t @ concat (map (\<lambda>(n, t). dirs (join q n) t) ts))"
  proof (rule outcome_bind [OF e1])
    show "tables d" using m by (simp add: mirrorable_def)
    fix d1 assume "effect d d1 (place (join q n) t) (dirs (join p n) t) (dirs (join q n) t)" "tables d1"
    then have "entries_ok d1 p q ts" by (rule entries_next [OF ok])
    then show "outcome d1 (monitor_entries fuel p q (map fst ts) d1) (concat (map (\<lambda>(n, t). place (join q n) t) ts))
        (concat (map (\<lambda>(n, t). dirs (join p n) t) ts)) (concat (map (\<lambda>(n, t). dirs (join q n) t) ts))"
      using Cons.IH Cons.prems(2) by simp
  qed
  then show ?case using d1 by (simp add: nt)
qed

lemma not_below_join: "\<not> below (join p n) p"
  by (auto simp: below_def join_def dest: prefix_length_le)

lemma tree_mirrored:
  "depth (Node ts) \<le> fuel \<Longrightarrow> mirrorable d p q (Node ts) \<Longrightarrow> mirrors d (monitor_directory fuel p q d) p q (Node ts)"
proof (induction fuel arbitrary: p q d ts)
  case (Suc fuel)
  note m = Suc.prems(2)
  have st: "stored (files d) p (Node ts)" and ap: "apart p q" and tb: "tables d"
    using m by (simp_all add: mirrorable_def)
  let ?dir = "rbind (make_dir q d) (add_inotify p q)"
  have dir: "outcome d ?dir ([(q, Dir)] @ []) ([] @ [p]) ([] @ [q])"
  proof (rule outcome_bind [OF _ tb])
    show "outcome d (make_dir q d) [(q, Dir)] [] []"
      using m below_refl by (intro make_dir_new) (auto simp: mirrorable_def)
    fix d1 assume e: "effect d d1 [(q, Dir)] [] []" "tables d1"
    then show "outcome d1 (add_inotify p q d1) [] [p] [q]"
      using m below_refl
      by (intro add_inotify_new [where x = Dir])
        (auto simp: mirrorable_def effect_def map_of_append_left simp del: map_of_append)
  qed
  have sub: "below p x" if "below (join p n) x" for p n x
    using below_trans [OF below_join [OF below_refl] that] .
  have rest: "outcome d1 (monitor_entries fuel p q (dot # dotdot # listing (files d1) p) d1)
      (concat (map (\<lambda>(n, t). place (join q n) t) ts)) (concat (map (\<lambda>(n, t). dirs (join p n) t) ts))
      (concat (map (\<lambda>(n, t). dirs (join q n) t) ts))"
    if e: "effect d d1 [(q, Dir)] [p] [q]" "tables d1" for d1
  proof -
    have f: "files d1 = files d @ [(q, Dir)]" "Some w \<in> set (watches d1) \<longleftrightarrow> w = p \<or> Some w \<in> set (watches d)" for w
      using e by (auto simp: effect_def)
    have "\<not> below p k" if "k \<in> set (map fst [(q, Dir)])" for k using that ap by (simp add: apart_def)
    then have s1: "stored (files d1) p (Node ts)" unfolding f by (rule stored_append [OF st])
    have "entry_ok d1 p q n t" if "(n, t) \<in> set ts" for n t
    proof -
      have "n \<in> set (map fst ts)" using that by force
      then have "n \<noteq> [] \<and> slash \<notin> set n" using stored_names [OF s1] by blast
      moreover have "n \<noteq> dot \<and> n \<noteq> dotdot \<and> stored (files d1) (join p n) t"
        using s1 that by (auto simp: list_all_iff)
      moreover have "\<forall>k \<in> set (map fst (files d1)). \<not> below (join q n) k"
        using m sub [of q n] not_below_join [of q n] unfolding f mirrorable_def by auto
      moreover have "\<forall>w. Some w \<in> set (watches d1) \<longrightarrow> \<not> below (join p n) w"
        using m sub [of p n] not_below_join [of p n] unfolding f mirrorable_def by blast
      ultimately show ?thesis unfolding entry_ok_def by blast
    qed
    moreover have "q \<notin> set (map fst (files d))" using m below_refl by (auto simp: mirrorable_def)
    then have "is_dir (files d1) q" unfolding is_dir_def f by (rule map_of_append_new)
    moreover have "log_open d1" "\<not> below p (path_argv2 d1)" "distinct (map fst ts)"
      using m e s1 by (simp_all add: mirrorable_def effect_def)
    ultimately have "entries_ok d1 p q ts"
      using ap e(2) unfolding entries_ok_def by blast
    moreover have "\<forall>(n, t) \<in> set ts. depth t \<le> fuel"
      using Suc.prems(1) depth_member [of _ _ ts] by fastforce
    ultimately have "outcome d1 (monitor_entries fuel p q (map fst ts) d1)
      (concat (map (\<lambda>(n, t). place (join q n) t) ts)) (concat (map (\<lambda>(n, t). dirs (join p n) t) ts))
      (concat (map (\<lambda>(n, t). dirs (join q n) t) ts))"
      using Suc.IH by (intro entries_mirrored) auto
    then show ?thesis using s1 by simp
  qed
  have "outcome d (rbind ?dir (\<lambda>d. monitor_entries fuel p q (dot # dotdot # listing (files d) p) d))
     (place q (Node ts)) (dirs p (Node ts)) (dirs q (Node ts))"
    using outcome_bind [OF dir tb, of "\<lambda>d. monitor_entries fuel p q (dot # dotdot # listing (files d) p) d"] rest by simp
  moreover have "monitor_directory (Suc fuel) p q d =
     rbind (rbind ?dir (\<lambda>d. monitor_entries fuel p q (dot # dotdot # listing (files d) p) d)) (\<lambda>d. Inr (0, d))"
    using m below_refl by (cases "make_dir q d") (auto simp: mirrorable_def is_dir_def rbind_def split: sum.split)
  ultimately show ?case unfolding mirrors_def
    by (cases "rbind ?dir (\<lambda>d. monitor_entries fuel p q (dot # dotdot # listing (files d) p) d)") simp_all
qed simp

end
