(* ===== verification/DaemonProps.thy ===== *)
theory DaemonProps
  imports DaemonMirror
begin

section \<open>The backup daemon: properties\<close>

subsection \<open>What every operation keeps\<close>

text \<open>The tables match the watches, and the names of the directories fit their buffers.\<close>

definition tables_ok :: "daemon \<Rightarrow> bool" where
  "tables_ok d \<longleftrightarrow> length (wds d) = WATCHES \<and> length (backs d) = WATCHES \<and>
     length (path_argv1 d) < PATHSZ \<and> length (path_argv2 d) < PATHSZ \<and>
     (\<forall>i p. i < length (watches d) \<and> watches d ! i = Some p \<longrightarrow>
        Suc i < WATCHES \<and> wds d ! Suc i = Some p \<and> (\<exists>b. backs d ! Suc i = Some b))"

definition keeps :: "daemon \<Rightarrow> daemon \<Rightarrow> bool" where
  "keeps d d' \<longleftrightarrow> path_argv1 d' = path_argv1 d \<and> path_argv2 d' = path_argv2 d \<and> handlers d' = handlers d \<and>
     pending d' = pending d \<and> shm24 d' = shm24 d \<and> shm28 d' = shm28 d \<and> mypid d' = mypid d \<and>
     log_open d' = log_open d \<and> (tables_ok d \<longrightarrow> tables_ok d')"

lemma keeps_refl [simp]: "keeps d d"
  by (simp add: keeps_def)

lemma keeps_trans [trans]: "keeps d d' \<Longrightarrow> keeps d' d'' \<Longrightarrow> keeps d d''"
  by (simp add: keeps_def)

lemma keeps_files [simp]: "keeps d (d\<lparr>files := fs\<rparr>)"
  by (simp add: keeps_def tables_ok_def)

lemma LOG_keeps: "LOG fmt params d = Inr d' \<Longrightarrow> keeps d d'"
  by (auto simp: LOG_def keeps_def tables_ok_def split: if_splits)

lemma fill_Inr [simp]: "fill n s = Inr t \<longleftrightarrow> t = s \<and> length s < n"
  by (auto simp: fill_def)

lemma copy_keeps: "copy p q len n d = Inr d' \<Longrightarrow> keeps d d'"
  by (auto simp: copy_def rbind_eq_Inr_iff intro: keeps_trans [OF keeps_files LOG_keeps])

lemma make_dir_keeps: "make_dir q d = Inr d' \<Longrightarrow> keeps d d'"
  by (auto simp: make_dir_def rbind_eq_Inr_iff split: prod.splits if_splits
      intro: keeps_trans [OF keeps_files LOG_keeps] keeps_trans [OF LOG_keeps LOG_keeps])

lemma watch_found:
  "Some p \<in> set ws \<Longrightarrow> length (takeWhile (\<lambda>w. w \<noteq> Some p) ws) < length ws \<and>
     ws ! length (takeWhile (\<lambda>w. w \<noteq> Some p) ws) = Some p"
proof -
  assume "Some p \<in> set ws"
  then have l: "length (takeWhile (\<lambda>w. w \<noteq> Some p) ws) < length ws"
    by (metis (mono_tags, lifting) length_takeWhile_le nat_less_le takeWhile_eq_all_conv takeWhile_eq_take take_all_iff)
  with nth_length_takeWhile [OF this] show ?thesis by simp
qed

lemma add_watch_keeps: "inotify_add_watch p d = Some (k, e) \<Longrightarrow> tables_ok d \<Longrightarrow> k < WATCHES \<Longrightarrow>
    keeps d (e\<lparr>wds := (wds e)[k := Some p], backs := (backs e)[k := Some q]\<rparr>)"
proof (cases "Some p \<in> set (watches d)")
  case True
  assume "inotify_add_watch p d = Some (k, e)" "tables_ok d" "k < WATCHES"
  then show ?thesis
    using watch_found [OF True] True
    by (auto simp: inotify_add_watch_def keeps_def tables_ok_def nth_list_update split: if_splits)
next
  case False
  have "takeWhile (\<lambda>w. w \<noteq> Some p) (watches d) = watches d"
    using False by (intro takeWhile_all) auto
  moreover assume a: "inotify_add_watch p d = Some (k, e)" "tables_ok d" "k < WATCHES"
  ultimately have e: "k = Suc (length (watches d))" "e = d\<lparr>watches := watches d @ [Some p]\<rparr>"
    using False by (simp_all add: inotify_add_watch_def split: if_splits del: takeWhile_eq_all_conv)
  have t: "tables_ok (e\<lparr>wds := (wds e)[k := Some p], backs := (backs e)[k := Some q]\<rparr>)"
    using a(2,3) unfolding tables_ok_def e by (auto simp: nth_append less_Suc_eq_le le_less)
  show ?thesis unfolding keeps_def using t e(2) by simp
qed

lemma keeps_unchanged: "inotify_add_watch p d = Some (k, e) \<Longrightarrow> \<not> tables_ok d \<Longrightarrow>
    keeps d (e\<lparr>wds := a, backs := b\<rparr>)"
  by (auto simp: inotify_add_watch_def keeps_def split: if_splits)

lemma add_watch_tables: "inotify_add_watch p d = Some (k, e) \<Longrightarrow> wds e = wds d \<and> backs e = backs d"
  by (auto simp: inotify_add_watch_def split: if_splits)

lemma add_inotify_keeps: "add_inotify p q d = Inr d' \<Longrightarrow> keeps d d'"
proof (cases "inotify_add_watch p d")
  case None
  assume "add_inotify p q d = Inr d'"
  then show ?thesis using None LOG_keeps by (simp add: add_inotify_def)
next
  case (Some ke)
  obtain k e where ke: "inotify_add_watch p d = Some (k, e)" using Some by (cases ke) simp
  assume "add_inotify p q d = Inr d'"
  then have k: "k < length (wds d)" and l: "keeps (e\<lparr>wds := (wds e)[k := Some p], backs := (backs e)[k := Some q]\<rparr>) d'"
    using ke add_watch_tables [OF ke] by (auto simp: add_inotify_def split: if_splits dest: LOG_keeps)
  have "keeps d (e\<lparr>wds := (wds e)[k := Some p], backs := (backs e)[k := Some q]\<rparr>)"
    using add_watch_keeps [OF ke] keeps_unchanged [OF ke] k by (cases "tables_ok d") (simp_all add: tables_ok_def)
  then show ?thesis using l by (rule keeps_trans)
qed

lemma monitor_keeps:
  "monitor_directory fuel p q d = Inr (v, d') \<Longrightarrow> keeps d d'"
  "monitor_entries fuel p q es d = Inr d' \<Longrightarrow> keeps d d'"
proof (induction fuel p q d and fuel p q es d arbitrary: v d' and d' rule: monitor_directory_monitor_entries.induct)
  case (2 fuel p q d)
  show ?case
  proof (cases "p = path_argv2 d \<or> \<not> is_dir (files d) p")
    case True
    then show ?thesis using "2.prems" LOG_keeps by (auto simp: rbind_eq_Inr_iff split: if_splits)
  next
    case False
    then obtain a b where "make_dir q d = Inr a" "add_inotify p q a = Inr b"
      "monitor_entries fuel p q (dot # dotdot # listing (files b) p) b = Inr d'"
      using "2.prems" by (auto simp: rbind_eq_Inr_iff simp del: monitor_entries.simps)
    moreover from this have "keeps b d'" using "2.IH" False by simp
    ultimately show ?thesis using make_dir_keeps add_inotify_keeps keeps_trans by metis
  qed
next
  case (4 fuel p q e es d)
  consider "e = dot \<or> e = dotdot" | "e \<noteq> dot" "e \<noteq> dotdot" "is_dir (files d) (join p e)"
    | "e \<noteq> dot" "e \<noteq> dotdot" "\<not> is_dir (files d) (join p e)" by blast
  then show ?case
  proof cases
    case 1
    then show ?thesis using "4.prems" "4.IH"(1) by simp
  next
    case 2
    then obtain u a where "monitor_directory fuel (join p e) (join q e) d = Inr (u, a)" "monitor_entries fuel p q es a = Inr d'"
      using "4.prems" by (auto simp: rbind_eq_Inr_iff)
    then show ?thesis using 2 "4.IH"(2,3) keeps_trans by fastforce
  next
    case 3
    then obtain a where "copy p q (length e) e d = Inr a" "monitor_entries fuel p q es a = Inr d'"
      using "4.prems" by (auto simp: rbind_eq_Inr_iff)
    then show ?thesis using 3 "4.IH"(4) copy_keeps keeps_trans by blast
  qed
qed simp_all

lemma new_entry_keeps: "new_entry fuel fmt w b ev d = Inr d' \<Longrightarrow> keeps d d'"
  by (auto simp: new_entry_def rbind_eq_Inr_iff split: if_splits
      intro: keeps_trans [OF LOG_keeps copy_keeps] keeps_trans [OF LOG_keeps monitor_keeps(1)])

lemma handle_event_keeps: "handle_event fuel ev d = Inr d' \<Longrightarrow> keeps d d'"
proof -
  have c: "on_created fuel w b ev d = Inr d' \<Longrightarrow> keeps d d'" for w b d d'
    using new_entry_keeps by (auto simp: on_created_def split: if_splits)
  have m: "on_modified w b ev d = Inr d' \<Longrightarrow> keeps d d'" for w b d d'
    by (auto simp: on_modified_def rbind_eq_Inr_iff split: if_splits intro: keeps_trans [OF LOG_keeps copy_keeps])
  have v: "on_moved_to fuel w b ev d = Inr d' \<Longrightarrow> keeps d d'" for w b d d'
    by (auto simp: on_moved_to_def rbind_eq_Inr_iff split: if_splits intro: keeps_trans [OF LOG_keeps new_entry_keeps])
  assume "handle_event fuel ev d = Inr d'"
  then show ?thesis
    by (auto simp: handle_event_def rbind_eq_Inr_iff split: if_splits option.splits
        intro: LOG_keeps keeps_trans [OF c keeps_trans [OF m v]])
qed

lemma handle_events_keeps: "handle_events fuel evs d = Inr d' \<Longrightarrow> keeps d d'"
  by (induction evs arbitrary: d) (auto simp: rbind_eq_Inr_iff intro: keeps_trans [OF handle_event_keeps])

subsection \<open>The tables\<close>

lemma watch_again_keeps: "watch_again fuel d = Inr (st, d') \<Longrightarrow> keeps (d\<lparr>watches := []\<rparr>) d' \<and> st = Waiting"
  by (auto simp: watch_again_def rbind_eq_Inr_iff dest: monitor_keeps(1))

lemma new_dir_Inr: "new_dir seg = Inr p \<Longrightarrow> seg = Some p \<and> length p < PATHSZ"
  by (auto simp: new_dir_def split: option.splits)

lemma change_backup_keeps:
  assumes "change_backup fuel d = Inr (st, d')"
  obtains p a where "shm24 d = Some p" "length p < PATHSZ" "keeps d a" "st = Waiting"
    "keeps (a\<lparr>path_argv2 := p, shm24 := None, watches := []\<rparr>) d'"
proof -
  obtain a p b where a: "LOG ''%d signal SIGUSR1 accepted'' [I (mypid d)] d = Inr a" and p: "new_dir (shm24 a) = Inr p"
    and b: "LOG ''directory changed, new backup directory: %s'' [S p] (a\<lparr>path_argv2 := p, shm24 := None\<rparr>) = Inr b"
    and w: "watch_again fuel b = Inr (st, d')"
    using assms by (auto simp: change_backup_def rbind_eq_Inr_iff)
  have "keeps (b\<lparr>watches := []\<rparr>) d'" "st = Waiting" using watch_again_keeps [OF w] by auto
  moreover have "keeps (a\<lparr>path_argv2 := p, shm24 := None, watches := []\<rparr>) (b\<lparr>watches := []\<rparr>)"
    using b by (auto simp: LOG_def keeps_def tables_ok_def split: if_splits)
  moreover have "keeps d a" using a by (rule LOG_keeps)
  ultimately show ?thesis using that new_dir_Inr [OF p] keeps_trans by (auto simp: keeps_def)
qed

lemma change_work_keeps:
  assumes "change_work fuel d = Inr (st, d')"
  obtains p a where "shm28 d = Some p" "length p < PATHSZ" "keeps d a" "st = Waiting"
    "keeps (a\<lparr>path_argv1 := p, shm28 := None, watches := []\<rparr>) d'"
proof -
  obtain a p b where a: "LOG ''%d signal SIGUSR2 accepted'' [I (mypid d)] d = Inr a" and p: "new_dir (shm28 a) = Inr p"
    and b: "LOG ''directory changed, new working directory: %s'' [S p] (a\<lparr>path_argv1 := p, shm28 := None\<rparr>) = Inr b"
    and w: "watch_again fuel b = Inr (st, d')"
    using assms by (auto simp: change_work_def rbind_eq_Inr_iff)
  have "keeps (b\<lparr>watches := []\<rparr>) d'" "st = Waiting" using watch_again_keeps [OF w] by auto
  moreover have "keeps (a\<lparr>path_argv1 := p, shm28 := None, watches := []\<rparr>) (b\<lparr>watches := []\<rparr>)"
    using b by (auto simp: LOG_def keeps_def tables_ok_def split: if_splits)
  moreover have "keeps d a" using a by (rule LOG_keeps)
  ultimately show ?thesis using that new_dir_Inr [OF p] keeps_trans by (auto simp: keeps_def)
qed

lemma tables_ok_watches: "tables_ok d \<Longrightarrow> tables_ok (d\<lparr>watches := []\<rparr>)"
  by (simp add: tables_ok_def)

lemma tables_ok_change:
  "tables_ok d \<Longrightarrow> length p < PATHSZ \<Longrightarrow> tables_ok (d\<lparr>path_argv2 := p, shm24 := None, watches := []\<rparr>)"
  "tables_ok d \<Longrightarrow> length p < PATHSZ \<Longrightarrow> tables_ok (d\<lparr>path_argv1 := p, shm28 := None, watches := []\<rparr>)"
  by (simp_all add: tables_ok_def)

lemma tables_ok_handlers: "tables_ok (d\<lparr>handlers := hs\<rparr>) = tables_ok d" "tables_ok (d\<lparr>pending := ps\<rparr>) = tables_ok d"
  by (simp_all add: tables_ok_def)

lemma deliver_tables_ok: "deliver fuel sig d = Inr (st, d') \<Longrightarrow> tables_ok d \<Longrightarrow> tables_ok d'"
proof -
  let ?d = "d\<lparr>handlers := sig # handlers d\<rparr>"
  assume d: "deliver fuel sig d = Inr (st, d')" and t: "tables_ok d"
  then have t': "tables_ok ?d" by (simp add: tables_ok_handlers)
  consider "sig \<in> set (handlers d)" | "kill_all ?d = Inr (st, d')" | "change_backup fuel ?d = Inr (st, d')"
    | "change_work fuel ?d = Inr (st, d')" | "d' = ?d"
    using d by (auto simp: deliver_def Let_def split: if_splits)
  then show ?thesis
  proof cases
    case 1
    then show ?thesis using d t by (auto simp: deliver_def tables_ok_handlers)
  next
    case 2
    then have "keeps ?d d'" by (auto simp: kill_all_def rbind_eq_Inr_iff dest: LOG_keeps)
    then show ?thesis using t' by (simp add: keeps_def)
  next
    case 3
    then show ?thesis using t' tables_ok_change(1) by (elim change_backup_keeps) (simp add: keeps_def)
  next
    case 4
    then show ?thesis using t' tables_ok_change(2) by (elim change_work_keeps) (simp add: keeps_def)
  next
    case 5
    then show ?thesis using t' by simp
  qed
qed

lemma users_change_tables_ok: "tables_ok d \<Longrightarrow> tables_ok (users_change fs d)"
proof -
  assume t: "tables_ok d"
  have "watches d ! i = Some p" if "i < length (watches d)" "watches (users_change fs d) ! i = Some p" for i p
    using that by (auto simp: users_change_def split: option.splits if_splits)
  moreover have same: "length (watches (users_change fs d)) = length (watches d)" "wds (users_change fs d) = wds d"
    "backs (users_change fs d) = backs d" "path_argv1 (users_change fs d) = path_argv1 d"
    "path_argv2 (users_change fs d) = path_argv2 d"
    by (simp_all add: users_change_def)
  ultimately show ?thesis using t unfolding tables_ok_def same by blast
qed

lemma happens_tables_ok: "happens fuel h d = Inr (st, d') \<Longrightarrow> tables_ok d \<Longrightarrow> tables_ok d'"
proof (cases h)
  case Read_empty
  assume "happens fuel h d = Inr (st, d')" and t: "tables_ok d"
  then obtain a where a: "keeps d a" and r: "(case handlers a of [] \<Rightarrow> Inr (Ended, a)
      | sig # hs \<Rightarrow> if sig \<in> set (pending a)
          then deliver fuel sig (a\<lparr>handlers := hs, pending := remove1 sig (pending a)\<rparr>)
          else Inr (Waiting, a\<lparr>handlers := hs\<rparr>)) = Inr (st, d')"
    using Read_empty by (auto simp: events_end_def rbind_eq_Inr_iff dest: LOG_keeps)
  have ta: "tables_ok a" using a t by (simp add: keeps_def)
  then show ?thesis using r deliver_tables_ok by (auto simp: tables_ok_handlers split: list.splits if_splits)
next
  case (Events evs)
  assume "happens fuel h d = Inr (st, d')" "tables_ok d"
  then show ?thesis using Events by (auto simp: rbind_eq_Inr_iff keeps_def dest: handle_events_keeps)
next
  case Read_fails
  assume "happens fuel h d = Inr (st, d')" "tables_ok d"
  then show ?thesis using Read_fails by (auto simp: rbind_eq_Inr_iff keeps_def dest: LOG_keeps)
qed (auto simp: users_change_tables_ok deliver_tables_ok)

lemma run_tables_ok: "monitor_events fuel hs d = Inr (st, d') \<Longrightarrow> tables_ok d \<Longrightarrow> tables_ok d'"
  by (induction hs arbitrary: d) (auto simp: rbind_eq_Inr_iff split: if_splits dest: happens_tables_ok)

end
