(* ===== verification/Backup.thy ===== *)
theory Backup
  imports DaemonProps
begin

section \<open>The backup daemon and its controller together\<close>

text \<open>What the daemon does for its users: the first backup, the backup of a changed file, the limits of
  its tables and buffers, and the controller's commands.\<close>

subsection \<open>The first backup\<close>

text \<open>The daemon when it begins to look through the working directory.\<close>

definition started :: "daemon \<Rightarrow> string \<Rightarrow> string \<Rightarrow> daemon" where
  "started d w b = d\<lparr>path_argv1 := w, path_argv2 := b, wds := replicate WATCHES None, backs := replicate WATCHES None,
     logged := logged d @ [(''current backup directory is %s'', [S b]), (''current working directory is %s'', [S w]),
       (''main pid is %d'', [I (mypid d)])], watches := []\<rparr>"

definition first_backup :: "nat \<Rightarrow> string \<Rightarrow> string \<Rightarrow> daemon \<Rightarrow> daemon res" where
  "first_backup fuel w b d = rbind (monitor_directory fuel w b (started d w b)) (\<lambda>(_, d). Inr d)"

lemma main_first_backup:
  assumes "log_open d" "w \<noteq> b" "length w < PATHSZ" "length b < PATHSZ"
  shows "main_daemon fuel True True [a, w, b] d = rbind (first_backup fuel w b d) (\<lambda>d. Inr (Running, d))"
  using assms unfolding first_backup_def
  by (cases "monitor_directory fuel w b (started d w b)") (auto simp: main_daemon_def fill_def LOG_def started_def)

lemma first_backup_outcome:
  assumes "log_open d" "stored (files d) w (Node ts)" "apart w b" "has_parent (files d) b"
    and "\<forall>k \<in> set (map fst (files d)). \<not> below b k" "depth (Node ts) \<le> fuel"
  shows "outcome (started d w b) (first_backup fuel w b d) (place b (Node ts)) (dirs w (Node ts)) (dirs b (Node ts))"
proof -
  have "mirrorable (started d w b) w b (Node ts)"
    using assms(1-5) by (simp add: mirrorable_def started_def apart_def tables_def room_def WATCHES_def)
  from tree_mirrored [OF assms(6) this] show ?thesis
    unfolding mirrors_def first_backup_def by (rule conjunct2)
qed

lemma room_started: "room (started d w b) k \<longleftrightarrow> k < WATCHES"
  by (simp add: room_def started_def)

text \<open>C1: started with a working and a backup directory that lie apart, the daemon copies the whole tree
  to the backup and watches every directory of it, each with its own backup in the tables, and then
  waits for events; the depth of the tree is enough fuel. With 100 directories or more it writes
  behind the end of its tables.\<close>
theorem tree_is_mirrored:
  assumes "log_open d" "stored (files d) w (Node ts)" "apart w b" "has_parent (files d) b"
    and "\<forall>k \<in> set (map fst (files d)). \<not> below b k" "length w < PATHSZ" "length b < PATHSZ"
    and "depth (Node ts) \<le> fuel"
  shows "(length (dirs w (Node ts)) < WATCHES \<longrightarrow>
           (\<exists>d'. main_daemon fuel True True [a, w, b] d = Inr (Running, d') \<and>
              files d' = files d @ place b (Node ts) \<and> watches d' = map Some (dirs w (Node ts)) \<and>
              wds d' = overwrite (replicate WATCHES None) 1 (map Some (dirs w (Node ts))) \<and>
              backs d' = overwrite (replicate WATCHES None) 1 (map Some (dirs b (Node ts))))) \<and>
         (WATCHES \<le> length (dirs w (Node ts)) \<longrightarrow> main_daemon fuel True True [a, w, b] d = Inl Overflow)"
proof -
  have "w \<noteq> b" using assms(3) by (auto simp: apart_def)
  note main = main_first_backup [OF assms(1) this assms(6,7)]
  note o = first_backup_outcome [OF assms(1-5,8)]
  show ?thesis
  proof (cases "length (dirs w (Node ts)) < WATCHES")
    case True
    then obtain d' where "first_backup fuel w b d = Inr d'"
      "effect (started d w b) d' (place b (Node ts)) (dirs w (Node ts)) (dirs b (Node ts))"
      using o by (auto simp: outcome_def room_started)
    then show ?thesis using True main unfolding effect_def by (simp add: started_def)
  next
    case False
    then have "first_backup fuel w b d = Inl Overflow" using o by (simp add: outcome_def room_started)
    then show ?thesis using False main by simp
  qed
qed

definition small_disk :: fsys where
  "small_disk = [([], Dir), (''/w'', Dir), (''/w/f'', File ''x''), (''/w/s'', Dir), (''/w/s/g'', File ''y'')]"

definition small_tree :: "(string \<times> tree) list" where
  "small_tree = [(''f'', Leaf ''x''), (''s'', Node [(''g'', Leaf ''y'')])]"

definition new_daemon :: "fsys \<Rightarrow> daemon" where
  "new_daemon fs = \<lparr>files = fs, log_open = True, logged = [], watches = [], wds = [], backs = [], path_argv1 = [],
     path_argv2 = [], shm24 = None, shm28 = None, handlers = [], pending = [], mypid = 7\<rparr>"

lemma small_stored: "stored small_disk ''/w'' (Node small_tree)"
  by (simp add: small_disk_def small_tree_def listing_def child_def slash_def join_def dot_def dotdot_def)

lemma small_apart: "apart ''/w'' ''/b'' \<and> has_parent small_disk ''/b'' \<and>
    (\<forall>k \<in> set (map fst small_disk). \<not> below ''/b'' k)"
  by (simp add: small_disk_def apart_def below_def has_parent_def child_def slash_def)

lemma small_conditions:
  "log_open (new_daemon small_disk)" "stored (files (new_daemon small_disk)) ''/w'' (Node small_tree)" "apart ''/w'' ''/b''"
  "has_parent (files (new_daemon small_disk)) ''/b''"
  "\<forall>k \<in> set (map fst (files (new_daemon small_disk))). \<not> below ''/b'' k"
  "length ''/w'' < PATHSZ" "length ''/b'' < PATHSZ" "depth (Node small_tree) \<le> 2"
  "length (dirs ''/w'' (Node small_tree)) < WATCHES" "''/w'' \<noteq> ''/b''"
  using small_stored small_apart by (simp_all add: new_daemon_def PATHSZ_def small_tree_def WATCHES_def)

lemma small_runs:
  "\<exists>d'. main_daemon 2 True True [''daemon'', ''/w'', ''/b''] (new_daemon small_disk) = Inr (Running, d')"
  using first_backup_outcome [OF small_conditions(1-5,8)] main_first_backup [OF small_conditions(1,10,6,7)] small_conditions(9)
  by (auto simp: outcome_def room_started)

theorem tree_is_mirrored_witness:
  "\<exists>d'. main_daemon 2 True True [''daemon'', ''/w'', ''/b''] (new_daemon small_disk) = Inr (Running, d') \<and>
     files d' = small_disk @ [(''/b'', Dir), (''/b/f'', File ''x''), (''/b/s'', Dir), (''/b/s/g'', File ''y'')]"
proof -
  have p: "place ''/b'' (Node small_tree) = [(''/b'', Dir), (''/b/f'', File ''x''), (''/b/s'', Dir), (''/b/s/g'', File ''y'')]"
    by (simp add: small_tree_def join_def slash_def)
  from mp [OF conjunct1 [OF tree_is_mirrored [OF small_conditions(1-8)]] small_conditions(9)] p
  show ?thesis by (auto simp: new_daemon_def)
qed

subsection \<open>The tables\<close>

lemma main_daemon_tables: "main_daemon fuel True True argv d = Inr (Running, d1) \<Longrightarrow> tables_ok d1"
  by (auto simp: main_daemon_def rbind_eq_Inr_iff LOG_def split: if_splits dest!: monitor_keeps(1))
    (auto simp: keeps_def tables_ok_def)

lemma main_daemon_log: "main_daemon fuel True True argv d = Inr (Running, d1) \<Longrightarrow> log_open d1"
  by (auto simp: main_daemon_def rbind_eq_Inr_iff LOG_def split: if_splits dest!: monitor_keeps(1))
    (auto simp: keeps_def)

text \<open>C6: the tables match the watches as long as the daemon runs, whatever happens: \<open>main\<close> sets them
  up so, and files that change, events, failing reads and signals in any order keep it. So every
  event of a directory that is watched finds its directory and its backup.\<close>
theorem tables_match_watches:
  assumes "main_daemon fuel True True argv d = Inr (Running, d1)" "monitor_events fuel hs d1 = Inr (st, d2)"
  shows "tables_ok d1 \<and> tables_ok d2 \<and>
         (\<forall>i < length (watches d2). \<forall>p. watches d2 ! i = Some p \<longrightarrow>
            wds d2 ! Suc i = Some p \<and> (\<exists>b. backs d2 ! Suc i = Some b))"
proof -
  have "tables_ok d1" using assms(1) by (rule main_daemon_tables)
  moreover from assms(2) this have "tables_ok d2" by (rule run_tables_ok)
  ultimately show ?thesis by (simp add: tables_ok_def)
qed

theorem tables_match_watches_witness:
  "\<exists>d1 d2. main_daemon 2 True True [''daemon'', ''/w'', ''/b''] (new_daemon small_disk) = Inr (Running, d1) \<and>
     monitor_events 2 [Read_fails] d1 = Inr (Waiting, d2) \<and> tables_ok d2"
proof -
  obtain d1 where d1: "main_daemon 2 True True [''daemon'', ''/w'', ''/b''] (new_daemon small_disk) = Inr (Running, d1)"
    using small_runs by blast
  have "log_open d1" using main_daemon_log [OF d1] by (simp add: new_daemon_def)
  then obtain d2 where d2: "monitor_events 2 [Read_fails] d1 = Inr (Waiting, d2)" by (simp add: LOG_def)
  show ?thesis using tables_match_watches [OF d1 d2] d1 d2 by blast
qed

subsection \<open>Events\<close>

text \<open>A directory that comes below a watched one is mirrored like the first backup, if the buffer for the name
  of its backup is long enough.\<close>

lemma new_entry_mirrors:
  assumes "mirrorable d (join w (ev_name ev)) (join b (ev_name ev)) (Node ts)" "depth (Node ts) \<le> fuel"
    and "length (ev_name ev) < ev_len ev" "length b + length (ev_name ev) < length w + ev_len ev + 4"
    and "room d (length (dirs (join w (ev_name ev)) (Node ts)))"
  shows "\<exists>d'. new_entry fuel fmt w b ev d = Inr d' \<and>
     effect d d' (place (join b (ev_name ev)) (Node ts)) (dirs (join w (ev_name ev)) (Node ts)) (dirs (join b (ev_name ev)) (Node ts))"
proof -
  let ?w = "join w (ev_name ev)" and ?b = "join b (ev_name ev)"
  let ?d = "d\<lparr>logged := logged d @ [(fmt, [S ?w])]\<rparr>"
  have "mirrorable ?d ?w ?b (Node ts)" using assms(1) by (simp add: mirrorable_def tables_def room_def)
  from tree_mirrored [OF assms(2) this] have "mirrors ?d (monitor_directory fuel ?w ?b ?d) ?w ?b (Node ts)" .
  then obtain d' where d': "rbind (monitor_directory fuel ?w ?b ?d) (\<lambda>(_, d). Inr d) = Inr d'"
    and e: "effect ?d d' (place ?b (Node ts)) (dirs ?w (Node ts)) (dirs ?b (Node ts))"
    using assms(5) by (auto simp: mirrors_def outcome_def room_def)
  have "log_open d" "is_dir (files d) ?w" using assms(1) by (simp_all add: mirrorable_def is_dir_def)
  then have "new_entry fuel fmt w b ev d = Inr d'"
    using d' assms(3,4) by (simp add: new_entry_def fill_def LOG_def)
  then show ?thesis using e by (auto simp: effect_def)
qed

text \<open>C2: a directory created below a watched one is copied to the backup with everything in it, and all its
  directories are watched behind those watched before, as long as the tables have room. But the buffer
  for the name of its backup has the length of the name of the directory itself: with a backup
  directory whose name is longer than that and the slack, the daemon writes behind the buffer.\<close>
theorem new_directory_is_mirrored:
  assumes "0 \<le> wd ev" "wd ev < int (length (wds d))" "wds d ! nat (wd ev) = Some w" "backs d ! nat (wd ev) = Some b"
    and "created ev" "\<not> modified ev" "\<not> moved_to ev" "length (ev_name ev) < ev_len ev"
    and "join w (ev_name ev) \<noteq> path_argv2 d"
    and "mirrorable d (join w (ev_name ev)) (join b (ev_name ev)) (Node ts)" "depth (Node ts) \<le> fuel"
    and "room d (length (dirs (join w (ev_name ev)) (Node ts)))"
  shows "(length b + length (ev_name ev) < length w + ev_len ev + 4 \<longrightarrow>
            (\<exists>d'. handle_event fuel ev d = Inr d' \<and> files d' = files d @ place (join b (ev_name ev)) (Node ts) \<and>
               watches d' = watches d @ map Some (dirs (join w (ev_name ev)) (Node ts)))) \<and>
         (length w + ev_len ev + 4 \<le> length b + length (ev_name ev) \<longrightarrow> handle_event fuel ev d = Inl Overflow)"
proof -
  have "is_dir (files d) (join w (ev_name ev))" "log_open d" using assms(10) by (simp_all add: mirrorable_def is_dir_def)
  moreover have "handle_event fuel ev d = rbind (new_entry fuel ''created %s'' w b ev d) Inr"
    using assms(1-9)
    by (cases "new_entry fuel ''created %s'' w b ev d")
      (simp_all add: handle_event_def fill_def on_created_def on_modified_def on_moved_to_def)
  ultimately show ?thesis
    using new_entry_mirrors [OF assms(10,11,8) _ assms(12), of "''created %s''"] assms(8)
    by (auto simp: effect_def new_entry_def fill_def LOG_def)
qed

lemma copy_over:
  assumes "log_open d" "map_of (files d) (join w n) = Some (File c)" "map_of (files d) (join b n) = Some (File old)"
    and "length n \<le> len"
  shows "copy w b len n d = Inr (d\<lparr>files := AList.update (join b n) (File (over c old)) (files d),
     logged := logged d @ [(''%s -> %s'', [S (join w n), S (join b n)])]\<rparr>)"
  using assms by (simp add: copy_def fill_def copy_file_def creat_def write_file_def LOG_def)

text \<open>C33: a modified file is copied over its backup, which is neither emptied nor cut: the backup is
  the new contents followed by what the old backup has beyond their length. So it is the copy it
  means to be if and only if the file has not become shorter than its backup.\<close>
theorem modified_file_is_copied:
  assumes "log_open d" "0 \<le> wd ev" "wd ev < int (length (wds d))"
    and "wds d ! nat (wd ev) = Some w" "backs d ! nat (wd ev) = Some b"
    and "modified ev" "\<not> created ev" "\<not> moved_to ev" "length (ev_name ev) < ev_len ev"
    and "join w (ev_name ev) \<noteq> path_argv2 d"
    and "map_of (files d) (join w (ev_name ev)) = Some (File c)"
    and "map_of (files d) (join b (ev_name ev)) = Some (File old)"
  shows "\<exists>d'. handle_event fuel ev d = Inr d' \<and>
     map_of (files d') (join b (ev_name ev)) = Some (File (c @ drop (length c) old)) \<and>
     (map_of (files d') (join b (ev_name ev)) = Some (File c) \<longleftrightarrow> length old \<le> length c) \<and>
     (\<forall>p. p \<noteq> join b (ev_name ev) \<longrightarrow> map_of (files d') p = map_of (files d) p)"
proof -
  define e where "e = d\<lparr>logged := logged d @ [(''modified %s/%s'', [S w, S (ev_name ev)])]\<rparr>"
  have "copy w b (ev_len ev) (ev_name ev) e = Inr (e\<lparr>files := AList.update (join b (ev_name ev)) (File (over c old)) (files e),
     logged := logged e @ [(''%s -> %s'', [S (join w (ev_name ev)), S (join b (ev_name ev))])]\<rparr>)"
    using assms by (intro copy_over) (simp_all add: e_def)
  moreover have "handle_event fuel ev d = copy w b (ev_len ev) (ev_name ev) e"
    using assms by (cases "copy w b (ev_len ev) (ev_name ev) e")
      (simp_all add: handle_event_def fill_def on_created_def on_modified_def on_moved_to_def LOG_def e_def)
  ultimately show ?thesis by (simp add: e_def update_conv over_def)
qed

text \<open>A daemon that watches \<open>/w\<close> with a backup whose name is as long as \<open>n\<close> letters.\<close>

definition watching :: "fsys \<Rightarrow> string \<Rightarrow> daemon" where
  "watching fs b = (new_daemon fs)\<lparr>watches := [Some ''/w''], wds := [None, Some ''/w''], backs := [None, Some b],
     path_argv1 := ''/w'', path_argv2 := b\<rparr>"

lemmas watching_simps = watching_def new_daemon_def small_disk_def join_def slash_def is_dir_def

text \<open>A directory \<open>s\<close> with a file in it comes to \<open>/w\<close>.\<close>

definition sub_tree :: "(string \<times> tree) list" where
  "sub_tree = [(''g'', Leaf ''y'')]"

definition come :: event where
  "come = \<lparr>wd = 1, created = True, modified = False, moved_to = False, ev_len = 16, ev_name = ''s''\<rparr>"

definition with_backup :: "string \<Rightarrow> daemon" where
  "with_backup b = (watching (small_disk @ [(b, Dir)]) b)\<lparr>wds := [None, Some ''/w'', None], backs := [None, Some b, None]\<rparr>"

lemma sub_mirrorable:
  "mirrorable (with_backup ''/b'') ''/w/s'' ''/b/s'' (Node sub_tree)"
  by (simp add: mirrorable_def sub_tree_def with_backup_def watching_simps listing_def child_def dot_def dotdot_def
      apart_def below_def has_parent_def tables_def room_def)

theorem new_directory_is_mirrored_witness:
  "\<exists>d'. handle_event 1 come (with_backup ''/b'') = Inr d' \<and>
     files d' = small_disk @ [(''/b'', Dir)] @ [(''/b/s'', Dir), (''/b/s/g'', File ''y'')] \<and>
     watches d' = [Some ''/w'', Some ''/w/s'']"
proof -
  have j: "join ''/w'' (ev_name come) = ''/w/s''" "join ''/b'' (ev_name come) = ''/b/s''" "depth (Node sub_tree) \<le> 1"
    "room (with_backup ''/b'') (length (dirs ''/w/s'' (Node sub_tree)))"
    by (simp_all add: join_def slash_def come_def sub_tree_def room_def with_backup_def watching_def)
  have c: "0 \<le> wd come" "wd come < int (length (wds (with_backup ''/b'')))" "wds (with_backup ''/b'') ! nat (wd come) = Some ''/w''"
    "backs (with_backup ''/b'') ! nat (wd come) = Some ''/b''" "created come" "\<not> modified come" "\<not> moved_to come"
    "length (ev_name come) < ev_len come" "''/w/s'' \<noteq> path_argv2 (with_backup ''/b'')"
    by (simp_all add: come_def with_backup_def watching_def)
  from new_directory_is_mirrored [OF c(1-8), of "sub_tree" 1, unfolded j, OF c(9) sub_mirrorable j(3,4)]
  show ?thesis
    by (simp add: come_def sub_tree_def with_backup_def watching_def new_daemon_def join_def slash_def)
qed

theorem modified_file_is_copied_witness:
  "\<exists>d'. handle_event 9 \<lparr>wd = 1, created = False, modified = True, moved_to = False, ev_len = 16, ev_name = ''f''\<rparr>
     (watching [([], Dir), (''/w'', Dir), (''/w/f'', File ''x''), (''/b'', Dir), (''/b/f'', File ''old'')] ''/b'') = Inr d' \<and>
     map_of (files d') ''/b/f'' = Some (File ''xld'')"
proof -
  let ?ev = "\<lparr>wd = 1, created = False, modified = True, moved_to = False, ev_len = 16, ev_name = ''f''\<rparr>"
  let ?d = "watching [([], Dir), (''/w'', Dir), (''/w/f'', File ''x''), (''/b'', Dir), (''/b/f'', File ''old'')] ''/b''"
  have "join ''/b'' ''f'' = ''/b/f''" by (simp add: join_def slash_def)
  then show ?thesis
    using modified_file_is_copied [of ?d ?ev "''/w''" "''/b''" "''x''" "''old''" 9]
    by (auto simp: watching_simps)
qed

subsection \<open>Commands\<close>

lemma happens_blocked:
  assumes "happens fuel h d = Inr (Waiting, d')" "SIGUSR1 \<in> set (handlers d)" "h \<noteq> Read_empty"
  shows "SIGUSR1 \<in> set (handlers d') \<and> path_argv2 d' = path_argv2 d \<and>
    (SIGUSR1 \<in> set (pending d) \<longrightarrow> SIGUSR1 \<in> set (pending d'))"
proof (cases h)
  case (Signal sig)
  have "SIGUSR1 \<in> set (sig # handlers d)" using assms(2) by simp
  then show ?thesis
    using assms Signal
    by (auto simp: deliver_def Let_def kill_all_def rbind_eq_Inr_iff keeps_def split: if_splits elim!: change_work_keeps)
next
  case (Events evs)
  then show ?thesis using assms by (auto simp: rbind_eq_Inr_iff keeps_def dest: handle_events_keeps)
next
  case Read_fails
  then show ?thesis using assms by (auto simp: rbind_eq_Inr_iff keeps_def dest: LOG_keeps)
qed (use assms in \<open>auto simp: users_change_def\<close>)

lemma run_blocked:
  "monitor_events fuel hs d = Inr (Waiting, d') \<Longrightarrow> SIGUSR1 \<in> set (handlers d) \<Longrightarrow> Read_empty \<notin> set hs \<Longrightarrow>
     SIGUSR1 \<in> set (handlers d') \<and> path_argv2 d' = path_argv2 d \<and>
     (SIGUSR1 \<in> set (pending d) \<longrightarrow> SIGUSR1 \<in> set (pending d'))"
proof (induction hs arbitrary: d)
  case (Cons h hs)
  then obtain e where "happens fuel h d = Inr (Waiting, e)" "monitor_events fuel hs e = Inr (Waiting, d')"
    by (auto simp: rbind_eq_Inr_iff split: if_splits)
  then show ?case using Cons happens_blocked [of fuel h d e] by auto
qed simp

lemma command_b:
  "command_daemon fuel [a, ''b'', p] d =
     (if length p < PAGE then rbind (deliver fuel SIGUSR1 (d\<lparr>shm24 := Some p\<rparr>))
         (\<lambda>(st, d). if st = Waiting then Inr (Waiting, d) else Inr (st, d))
      else Inl Segv)"
  by (simp add: command_daemon_def controller_def arg2_def pid_of_def not_le cong: if_cong)

text \<open>C34: the command \<open>b\<close> of the controller gives the daemon its new backup directory, once: its handler
  goes on to watch the directories and never returns, so the signal of a second \<open>b\<close> stays blocked and
  pending and the backup directory that of the first, whatever happens between the two and, for ever,
  behind the second (events, failing reads, further signals), as long as no read of the inotify
  instance is empty.\<close>
theorem second_backup_command_waits:
  assumes "command_daemon fuel [a, ''b'', p1] d = Inr (Waiting, d1)" "SIGUSR1 \<notin> set (handlers d)"
    and "monitor_events fuel hs d1 = Inr (Waiting, d2)" "Read_empty \<notin> set hs" "length p2 < PAGE"
  shows "path_argv2 d1 = p1 \<and>
     (\<exists>d3. command_daemon fuel [a, ''b'', p2] d2 = Inr (Waiting, d3) \<and> path_argv2 d3 = p1 \<and>
        files d3 = files d2 \<and> watches d3 = watches d2 \<and> SIGUSR1 \<in> set (pending d3) \<and>
        (\<forall>fuel' hs' d4. Read_empty \<notin> set hs' \<and> monitor_events fuel' hs' d3 = Inr (Waiting, d4) \<longrightarrow>
           path_argv2 d4 = p1 \<and> SIGUSR1 \<in> set (pending d4) \<and> SIGUSR1 \<in> set (handlers d4)))"
proof -
  have "change_backup fuel (d\<lparr>shm24 := Some p1, handlers := SIGUSR1 # handlers d\<rparr>) = Inr (Waiting, d1)"
    using assms(1,2) by (auto simp: command_b deliver_def Let_def SIGINT_def SIGUSR1_def rbind_eq_Inr_iff split: if_splits)
  then have d1: "path_argv2 d1 = p1 \<and> SIGUSR1 \<in> set (handlers d1)"
    by (elim change_backup_keeps) (auto simp: keeps_def)
  with run_blocked [OF assms(3) _ assms(4)] have d2: "path_argv2 d2 = p1" "SIGUSR1 \<in> set (handlers d2)" by auto
  let ?d3 = "d2\<lparr>shm24 := Some p2, pending := List.insert SIGUSR1 (pending d2)\<rparr>"
  have "command_daemon fuel [a, ''b'', p2] d2 = Inr (Waiting, ?d3)"
    using assms(5) d2(2) by (simp add: command_b deliver_def)
  moreover have "path_argv2 d4 = p1 \<and> SIGUSR1 \<in> set (pending d4) \<and> SIGUSR1 \<in> set (handlers d4)"
    if "Read_empty \<notin> set hs'" "monitor_events fuel' hs' ?d3 = Inr (Waiting, d4)" for fuel' hs' d4
    using run_blocked [OF that(2) _ that(1)] d2 by simp
  ultimately show ?thesis using d1 d2 by (intro conjI exI [of _ ?d3]) auto
qed

lemma small_command:
  "\<exists>d1. command_daemon (Suc 0) [''con'', ''b'', ''/c''] (watching [([], Dir)] ''/b'') = Inr (Waiting, d1) \<and> log_open d1"
  by (simp add: command_b PAGE_def PATHSZ_def deliver_def SIGINT_def SIGUSR1_def change_backup_def new_dir_def fill_def LOG_def
      watch_again_def watching_simps)

theorem second_backup_command_waits_witness:
  "\<exists>d1 d2 d3. command_daemon (Suc 0) [''con'', ''b'', ''/c''] (watching [([], Dir)] ''/b'') = Inr (Waiting, d1) \<and>
     monitor_events (Suc 0) [Read_fails] d1 = Inr (Waiting, d2) \<and>
     command_daemon (Suc 0) [''con'', ''b'', ''/d''] d2 = Inr (Waiting, d3) \<and> path_argv2 d3 = ''/c''"
proof -
  obtain d1 where d1: "command_daemon (Suc 0) [''con'', ''b'', ''/c''] (watching [([], Dir)] ''/b'') = Inr (Waiting, d1)"
    and "log_open d1" using small_command by blast
  then obtain d2 where d2: "monitor_events (Suc 0) [Read_fails] d1 = Inr (Waiting, d2)" by (simp add: LOG_def)
  have "SIGUSR1 \<notin> set (handlers (watching [([], Dir)] ''/b''))" "Read_empty \<notin> set [Read_fails]" "length ''/d'' < PAGE"
    by (simp_all add: watching_simps PAGE_def)
  from second_backup_command_waits [OF d1 this(1) d2 this(2,3)] show ?thesis using d1 d2 by blast
qed

end
