(* ===== verification/Strtok.thy ===== *)
theory Strtok
  imports CString
begin

section \<open>Taking strings apart: \<open>strtok_r\<close>\<close>

text \<open>The part of the C library the pipeline program and the environment program share: a call of
  \<open>strtok_r(s, c, &s)\<close> gives the next part and what is left, or a null pointer.\<close>

definition strtok :: "char \<Rightarrow> string \<Rightarrow> (string \<times> string) option" where
  "strtok c s = (let t = dropWhile (\<lambda>x. x = c) s
     in if t = [] then None else Some (takeWhile (\<lambda>x. x \<noteq> c) t, tl (dropWhile (\<lambda>x. x \<noteq> c) t)))"

lemma strtok_shorter: "strtok c s = Some (w, r) \<Longrightarrow> length r < length s"
proof -
  assume a: "strtok c s = Some (w, r)"
  let ?t = "dropWhile (\<lambda>x. x = c) s"
  have "?t \<noteq> []" and r: "r = tl (dropWhile (\<lambda>x. x \<noteq> c) ?t)"
    using a by (auto simp: strtok_def Let_def split: if_splits)
  then have "length r \<le> length ?t - 1" "0 < length ?t" using length_dropWhile_le [of "\<lambda>x. x \<noteq> c" ?t] by auto
  moreover have "length ?t \<le> length s" by (rule length_dropWhile_le)
  ultimately show ?thesis by linarith
qed

text \<open>All the parts a loop over \<open>strtok_r\<close> gets.\<close>

function parts :: "char \<Rightarrow> string \<Rightarrow> string list" where
  "parts c s = (case strtok c s of None \<Rightarrow> [] | Some (w, r) \<Rightarrow> w # parts c r)"
  by pat_completeness auto

termination
  by (relation "measure (\<lambda>(c, s). length s)") (auto simp: strtok_shorter)

declare parts.simps [simp del]

subsection \<open>Lines and their parts\<close>

text \<open>Parts with single separators between them.\<close>

fun sep_by :: "char \<Rightarrow> string list \<Rightarrow> string" where
  "sep_by c [] = []"
| "sep_by c [w] = w"
| "sep_by c (w # v # ws) = w @ c # sep_by c (v # ws)"

lemma strtok_last: "w \<noteq> [] \<Longrightarrow> c \<notin> set w \<Longrightarrow> strtok c w = Some (w, [])"
proof -
  assume w: "w \<noteq> []" "c \<notin> set w"
  then have "dropWhile (\<lambda>x. x = c) w = w" by (cases w) auto
  moreover have "takeWhile (\<lambda>x. x \<noteq> c) w = w" "dropWhile (\<lambda>x. x \<noteq> c) w = []"
    using w by (auto simp: dropWhile_eq_Nil_conv intro: takeWhile_all)
  ultimately show ?thesis using w(1) by (simp only: strtok_def Let_def if_False list.sel)
qed

lemma strtok_more: "w \<noteq> [] \<Longrightarrow> c \<notin> set w \<Longrightarrow> strtok c (w @ c # r) = Some (w, r)"
proof -
  assume w: "w \<noteq> []" "c \<notin> set w"
  then have "dropWhile (\<lambda>x. x = c) (w @ c # r) = w @ c # r" by (cases w) auto
  moreover have "takeWhile (\<lambda>x. x \<noteq> c) (w @ c # r) = w" using w(2) by (intro takeWhile_append_stop) auto
  moreover have "dropWhile (\<lambda>x. x \<noteq> c) (w @ c # r) = c # r" using w(2) by (subst dropWhile_append2) auto
  ultimately show ?thesis by (simp add: strtok_def)
qed

lemma strtok_empty [simp]: "strtok c [] = None"
  by (simp add: strtok_def)

definition plain :: "char \<Rightarrow> string list \<Rightarrow> bool" where
  "plain c ws \<longleftrightarrow> (\<forall>w \<in> set ws. w \<noteq> [] \<and> c \<notin> set w)"

lemma parts_sep_by: "plain c ws \<Longrightarrow> parts c (sep_by c ws) = ws"
  by (induction c ws rule: sep_by.induct) (simp_all add: plain_def parts.simps strtok_last strtok_more)

lemma set_sep_by: "x \<in> set (sep_by c ws) \<Longrightarrow> x = c \<or> (\<exists>w \<in> set ws. x \<in> set w)"
  by (induction c ws rule: sep_by.induct) auto

lemma sep_by_nonempty: "ws \<noteq> [] \<Longrightarrow> plain c ws \<Longrightarrow> sep_by c ws \<noteq> []"
  by (cases "(c, ws)" rule: sep_by.cases) (auto simp: plain_def)

end
