(* ===== verification/Grep.thy ===== *)
theory Grep
  imports Strtok
begin

section \<open>A pipeline of commands: \<open>grep/grep.c\<close>\<close>

text \<open>
  \<open>main\<close> reads a line of commands with bars between them, makes a pipe for every bar and a child for
  every command, and each child connects its ends and executes its words. A child is described by
  its argument vector and by where its input comes from and its output goes to when it reaches
  \<open>execvp\<close>. Parameters: \<open>usable n\<close> is what \<open>malloc(n)\<close> really gives, \<open>behind\<close> the bytes behind the
  buffer of the line (which the program does not terminate), \<open>pipe_ok i\<close> and \<open>fork_ok j\<close> tell
  whether a pipe and a fork work; neither result stops the program.
\<close>

subsection \<open>A child\<close>

datatype port = Terminal | Pipe nat

record child =
  comms :: "string list"
  c_in :: port
  c_out :: port

definition bar :: char where
  "bar = CHR ''|''"

definition blank :: char where
  "blank = CHR '' ''"

text \<open>The loop that stores the words in an array of \<open>n\<close> bytes; the condition below it is its body, so
  the input is connected once per word, and not at all without words.\<close>

function word_loop :: "nat \<Rightarrow> nat \<Rightarrow> nat \<Rightarrow> string \<Rightarrow> port \<Rightarrow> (string list \<times> port) res" where
  "word_loop n j i s p =
     (if n < 8 * (i + 1) then Inl Overflow
      else case strtok blank s of
        None \<Rightarrow> Inr ([], p)
      | Some (w, r) \<Rightarrow>
          rbind (word_loop n j (i + 1) r (if 0 < j then Pipe (j - 1) else p)) (\<lambda>(ws, p). Inr (w # ws, p)))"
  by pat_completeness auto

termination
  by (relation "measure (\<lambda>(n, j, i, s, p). length s)") (auto simp: strtok_shorter)

declare word_loop.simps [simp del]

definition run_child :: "(nat \<Rightarrow> nat) \<Rightarrow> nat \<Rightarrow> nat \<Rightarrow> string \<Rightarrow> child res" where
  "run_child usable n j substr =
     rbind (word_loop (usable (length substr)) j 0 substr Terminal) (\<lambda>(ws, p).
       Inr \<lparr>comms = ws, c_in = p, c_out = (if j < n then Pipe j else Terminal)\<rparr>)"

subsection \<open>The parent\<close>

definition PIPES :: nat where
  "PIPES = 1000"

definition count_bars :: "string \<Rightarrow> nat" where
  "count_bars s = length (filter (\<lambda>c. c = bar) s)"

text \<open>The loop over the parts: child \<open>j\<close> gets the \<open>j\<close>-th part.\<close>

definition children :: "(nat \<Rightarrow> nat) \<Rightarrow> (nat \<Rightarrow> bool) \<Rightarrow> nat \<Rightarrow> string \<Rightarrow> child res list" where
  "children usable fork_ok n line =
     map (\<lambda>(j, s). run_child usable n j s) (filter (\<lambda>(j, s). fork_ok j) (enumerate 0 (parts bar line)))"

text \<open>\<open>main\<close>: what it prints, its children, and how many of them it waits for. The last byte of the
  file is left out; from an empty file nothing can be allocated, and \<open>strtok_r\<close> follows a null pointer.
  A pipe that could not be made leaves its two numbers uninitialised, and the parent and every child
  close them.\<close>

definition main_grep :: "(nat \<Rightarrow> nat) \<Rightarrow> string \<Rightarrow> (nat \<Rightarrow> bool) \<Rightarrow> (nat \<Rightarrow> bool) \<Rightarrow> nat \<Rightarrow> (bool \<times> string) option \<Rightarrow>
    (string list \<times> child res list \<times> nat) res" where
  "main_grep usable behind pipe_ok fork_ok argc file =
     (if argc < 2 then Inr ([''argc < 2''], [], 0)
      else case file of
        None \<Rightarrow> Inr ([''File is not regular''], [], 0)
      | Some (regular, contents) \<Rightarrow>
          if \<not> regular then Inr ([''File is not regular''], [], 0)
          else if contents = [] then Inl Null_deref
          else
            let text = butlast contents; n = count_bars text
            in if PIPES < n then Inl Overflow
               else if nul \<notin> set (text @ behind) then Inl Segv
               else if \<not> list_all pipe_ok [0..<n] then Inl Indeterminate
               else Inr ([], children usable fork_ok n (cstr (text @ behind)), n + 1))"

subsection \<open>Lines and their parts\<close>

lemma sep_by_bars: "plain c ws \<Longrightarrow> length (filter (\<lambda>x. x = c) (sep_by c ws)) = length ws - 1"
proof (induction c ws rule: sep_by.induct)
  case (2 c w)
  then have "filter (\<lambda>x. x = c) w = []" by (auto simp: plain_def filter_empty_conv)
  then show ?case by simp
next
  case (3 c w v ws)
  then have "filter (\<lambda>x. x = c) w = []" by (auto simp: plain_def filter_empty_conv)
  then show ?case using 3 by (simp add: plain_def)
qed simp

lemma word_loop_plain:
  "plain blank ws \<Longrightarrow> word_loop n j i (sep_by blank ws) p =
     (if n < 8 * (i + length ws + 1) then Inl Overflow
      else Inr (ws, if ws \<noteq> [] \<and> 0 < j then Pipe (j - 1) else p))"
proof (induction blank ws arbitrary: i j p rule: sep_by.induct)
  case 1
  then show ?case by (simp add: word_loop.simps [of n j i "[]"])
next
  case (2 w)
  then show ?case
    by (simp add: plain_def word_loop.simps [of n j i w] word_loop.simps [of n j "Suc i" "[]"] strtok_last)
next
  case (3 w v ws)
  then show ?case
    by (simp add: plain_def word_loop.simps [of n j i "w @ blank # sep_by blank (v # ws)"] strtok_more)
qed

lemma enumerate_map: "enumerate k (map f xs) = map (\<lambda>(j, x). (j, f x)) (enumerate k xs)"
  by (induction xs arbitrary: k) simp_all

lemma enumerate_snd: "(j, x) \<in> set (enumerate k xs) \<Longrightarrow> x \<in> set xs"
  by (auto simp: in_set_enumerate_eq)

subsection \<open>Properties\<close>

text \<open>A command: words without blanks, bars and NULs, at least one of them.\<close>

definition command_ok :: "string list \<Rightarrow> bool" where
  "command_ok ws \<longleftrightarrow> ws \<noteq> [] \<and> plain blank ws \<and> plain bar ws \<and> plain nul ws"

lemma command_part: "command_ok ws \<Longrightarrow> sep_by blank ws \<noteq> [] \<and> bar \<notin> set (sep_by blank ws) \<and> nul \<notin> set (sep_by blank ws)"
  using sep_by_nonempty set_sep_by by (fastforce simp: command_ok_def plain_def bar_def blank_def)

definition pipeline :: "string list list \<Rightarrow> string" where
  "pipeline cmds = sep_by bar (map (sep_by blank) cmds)"

lemma pipeline_ok:
  assumes "\<forall>ws \<in> set cmds. command_ok ws"
  shows "plain bar (map (sep_by blank) cmds) \<and> nul \<notin> set (pipeline cmds)"
proof -
  have "plain bar (map (sep_by blank) cmds)" using assms command_part by (auto simp: plain_def)
  moreover have "nul \<notin> set (pipeline cmds)"
  proof
    assume "nul \<in> set (pipeline cmds)"
    then have "nul = bar \<or> (\<exists>ws \<in> set cmds. nul \<in> set (sep_by blank ws))"
      using set_sep_by [of nul bar "map (sep_by blank) cmds"] by (auto simp: pipeline_def)
    then show False using assms command_part by (auto simp: bar_def)
  qed
  ultimately show ?thesis by blast
qed

text \<open>The child of the \<open>j\<close>-th of \<open>k\<close> commands, as a shell would connect it.\<close>

definition wired :: "nat \<Rightarrow> nat \<Rightarrow> string list \<Rightarrow> child" where
  "wired k j ws = \<lparr>comms = ws, c_in = (if j = 0 then Terminal else Pipe (j - 1)),
     c_out = (if j + 1 < k then Pipe j else Terminal)\<rparr>"

text \<open>C13: a file is run as a shell would run it, if its text without the last byte, followed by what lies
  behind the unterminated buffer up to the first NUL (normally nothing), is a line of at most 1001
  commands, each of words with single blanks, and the bytes behind hold no bar. If every pipe works,
  there is one child per command whose fork works, the output of each connected to the input of the
  next, and the parent waits for as many as there are commands; but a child whose array of words is too
  small for its words and the final null pointer writes behind the array. If a pipe cannot be made, the
  processes close uninitialised descriptors; and if no NUL lies behind the buffer, the program runs off it.\<close>
theorem pipeline_is_wired:
  assumes "cmds \<noteq> []" "\<forall>ws \<in> set cmds. command_ok ws" "length cmds \<le> PIPES + 1" "2 \<le> argc"
    and "line @ cstr behind = pipeline cmds" "bar \<notin> set (cstr behind)"
  shows "main_grep usable behind pipe_ok fork_ok argc (Some (True, line @ [c])) =
     (if nul \<notin> set behind then Inl Segv
      else if \<exists>i < length cmds - 1. \<not> pipe_ok i then Inl Indeterminate
      else Inr ([], map (\<lambda>(j, ws). if usable (length (sep_by blank ws)) < 8 * (length ws + 1) then Inl Overflow
                                 else Inr (wired (length cmds) j ws))
                      (filter (\<lambda>(j, ws). fork_ok j) (enumerate 0 cmds)), length cmds))"
proof -
  have p: "plain bar (map (sep_by blank) cmds)" "nul \<notin> set (pipeline cmds)" using pipeline_ok [OF assms(2)] by auto
  then have l: "nul \<notin> set line" using assms(5) by (metis Un_iff set_append)
  have "count_bars line = count_bars (line @ cstr behind)"
    using assms(6) by (simp add: count_bars_def filter_empty_conv) metis
  then have n: "count_bars line = length cmds - 1"
    unfolding assms(5) by (simp add: count_bars_def pipeline_def sep_by_bars [OF p(1)])
  have s: "cstr (line @ behind) = pipeline cmds" using l assms(5) by (simp add: cstr_append_no_nul)
  have one: "run_child usable (length cmds - 1) j (sep_by blank ws) =
      (if usable (length (sep_by blank ws)) < 8 * (length ws + 1) then Inl Overflow else Inr (wired (length cmds) j ws))"
    if "ws \<in> set cmds" for j ws
    using that assms(2) by (auto simp: run_child_def word_loop_plain command_ok_def wired_def)
  have "children usable fork_ok (length cmds - 1) (pipeline cmds) =
      map (\<lambda>(j, ws). run_child usable (length cmds - 1) j (sep_by blank ws))
        (filter (\<lambda>(j, ws). fork_ok j) (enumerate 0 cmds))"
    unfolding children_def pipeline_def parts_sep_by [OF p(1)]
    by (simp add: enumerate_map filter_map split_def comp_def)
  also have "\<dots> = map (\<lambda>(j, ws). if usable (length (sep_by blank ws)) < 8 * (length ws + 1) then Inl Overflow
                             else Inr (wired (length cmds) j ws)) (filter (\<lambda>(j, ws). fork_ok j) (enumerate 0 cmds))"
    using one enumerate_snd by (intro map_cong) fastforce+
  finally have c: "children usable fork_ok (length cmds - 1) (pipeline cmds) = \<dots>" .
  have k: "length cmds - 1 \<le> PIPES" "length cmds - 1 + 1 = length cmds" using assms(1,3) by (cases cmds; simp)+
  have q: "list_all pipe_ok [0..<length cmds - 1] \<longleftrightarrow> \<not> (\<exists>i < length cmds - 1. \<not> pipe_ok i)"
    by (auto simp: list_all_iff)
  show ?thesis using assms(4) l k c q by (simp add: main_grep_def Let_def n s) blast
qed

text \<open>\<open>malloc\<close> of the GNU C library gives at least 24 bytes: room for two words.\<close>

definition glibc_usable :: "nat \<Rightarrow> nat" where
  "glibc_usable n = max 24 ((n + 23) div 16 * 16 - 8)"

theorem pipeline_is_wired_witness:
  "main_grep glibc_usable (nul # ''|x'') (\<lambda>_. True) (\<lambda>_. True) 2
      (Some (True, pipeline [[''ls'', ''-l''], [''a'', ''b'', ''c'']] @ [CHR ''x''])) =
     Inr ([], [Inr \<lparr>comms = [''ls'', ''-l''], c_in = Terminal, c_out = Pipe 0\<rparr>, Inl Overflow], 2) \<and>
   main_grep glibc_usable (nul # ''|x'') (\<lambda>_. False) (\<lambda>_. True) 2
      (Some (True, pipeline [[''ls'', ''-l''], [''a'', ''b'', ''c'']] @ [CHR ''x''])) = Inl Indeterminate"
proof -
  have "\<forall>ws \<in> set [[''ls'', ''-l''], [''a'', ''b'', ''c'']]. command_ok ws"
    by (simp add: command_ok_def plain_def blank_def bar_def)
  moreover have "length [[''ls'', ''-l''], [''a'', ''b'', ''c'']] \<le> PIPES + 1" by (simp add: PIPES_def)
  moreover have "cstr (nul # ''|x'') = []" by (simp add: c_string)
  ultimately show ?thesis
    using pipeline_is_wired [of "[[''ls'', ''-l''], [''a'', ''b'', ''c'']]" 2
        "pipeline [[''ls'', ''-l''], [''a'', ''b'', ''c'']]" "nul # ''|x''" glibc_usable _ "\<lambda>_. True" "CHR ''x''"]
    by (simp add: wired_def glibc_usable_def)
qed

text \<open>With an empty command between two bars, or a bar at an end of the line, there are more pipes than
  connections: no child keeps the terminal as its output, so the result of the pipeline is lost.\<close>
theorem empty_command_loses_output:
  assumes "nul \<notin> set line" "length (parts bar line) \<le> count_bars line"
    and "main_grep usable (nul # junk) pipe_ok fork_ok argc (Some (True, line @ [c])) = Inr ([], cs, k)"
    and "Inr ch \<in> set cs"
  shows "c_out ch \<noteq> Terminal"
proof -
  have "cs = children usable fork_ok (count_bars line) line"
    using assms(1,3) by (auto simp: main_grep_def cstr_append_nul Let_def split: if_splits)
  then obtain j s where "(j, s) \<in> set (enumerate 0 (parts bar line))" "Inr ch = run_child usable (count_bars line) j s"
    using assms(4) by (auto simp: children_def)
  moreover from this have "j < count_bars line" using assms(2) by (auto simp: in_set_enumerate_eq)
  ultimately show ?thesis by (auto simp: run_child_def rbind_eq_Inr_iff dest!: sym [of "Inr ch"])
qed

theorem empty_command_loses_output_witness:
  "\<exists>ch. main_grep (\<lambda>n. 100) [nul] (\<lambda>_. True) (\<lambda>_. True) 2 (Some (True, ''ls||'' @ [CHR ''x''])) = Inr ([], [Inr ch], 3) \<and>
     c_out ch \<noteq> Terminal"
proof -
  have s: "strtok bar ''ls||'' = Some (''ls'', ''|'')" "strtok bar ''|'' = None" "strtok blank ''ls'' = Some (''ls'', [])"
    by (simp_all add: strtok_def bar_def blank_def)
  then have p: "parts bar ''ls||'' = [''ls'']" by (simp add: parts.simps)
  have "word_loop 100 0 0 ''ls'' Terminal = Inr ([''ls''], Terminal)"
    using s(3) by (simp add: word_loop.simps [of 100 0 0 "''ls''"] word_loop.simps [of 100 0 "Suc 0" "[]"])
  moreover have b: "count_bars ''ls||'' = 2" by (simp add: count_bars_def bar_def)
  ultimately have m: "main_grep (\<lambda>n. 100) [nul] (\<lambda>_. True) (\<lambda>_. True) 2 (Some (True, ''ls||'' @ [CHR ''x''])) =
      Inr ([], [Inr \<lparr>comms = [''ls''], c_in = Terminal, c_out = Pipe 0\<rparr>], 3)"
    using p by (simp add: main_grep_def PIPES_def children_def run_child_def c_string list_all_iff)
  have "nul \<notin> set ''ls||''" "length (parts bar ''ls||'') \<le> count_bars ''ls||''" using p b by simp_all
  from empty_command_loses_output [OF this m] m show ?thesis by simp
qed

end
