(* ===== verification/EnvProg.thy ===== *)
theory EnvProg
  imports Strtok
begin

section \<open>Environment variables: \<open>env/env.c\<close> and \<open>env/printer.c\<close>\<close>

text \<open>
  \<open>env\<close> takes assignments from its arguments, adds them to the environment and becomes \<open>print\<close>,
  which prints the environment. The environment is the list \<open>envp\<close> of names and values in order. A
  null name is an invalid argument for \<open>setenv\<close>: it fails, nobody looks, and the environment stays as it
  was. With a name, a null value makes \<open>setenv\<close> follow a null pointer.
\<close>

type_synonym environment = "(string \<times> string) list"

definition equals_sign :: char where
  "equals_sign = CHR ''=''"

text \<open>\<open>setenv(env, val, 0)\<close>: a variable that is there is left alone.\<close>

definition setenv :: "string \<Rightarrow> string \<Rightarrow> environment \<Rightarrow> environment" where
  "setenv n v e = (if n \<in> set (map fst e) then e else e @ [(n, v)])"

definition assign :: "string \<Rightarrow> environment \<Rightarrow> environment res" where
  "assign targv e = (case strtok equals_sign targv of
       None \<Rightarrow> Inr e
     | Some (env, r) \<Rightarrow> (case strtok equals_sign r of
           None \<Rightarrow> Inl Null_deref
         | Some (v, _) \<Rightarrow> Inr (setenv env v e)))"

fun assign_all :: "string list \<Rightarrow> environment \<Rightarrow> environment res" where
  "assign_all [] e = Inr e"
| "assign_all (a # as) e = rbind (assign a e) (assign_all as)"

text \<open>\<open>main\<close> of \<open>printer.c\<close>, and of \<open>env.c\<close>, whose loop starts at the third entry of \<open>argv\<close>;
  \<open>print_found\<close> tells whether \<open>execl\<close> finds the program. What is printed:\<close>

definition main_printer :: "environment \<Rightarrow> string list" where
  "main_printer e = map (\<lambda>(n, v). n @ equals_sign # v) e"

definition main_env :: "bool \<Rightarrow> string list \<Rightarrow> environment \<Rightarrow> string list res" where
  "main_env print_found argv e =
     rbind (assign_all (drop 2 argv) e) (\<lambda>e. Inr (if print_found then main_printer e else []))"

subsection \<open>Properties\<close>

text \<open>Names and values without an equals sign, not empty.\<close>

definition assignment :: "string \<times> string \<Rightarrow> string" where
  "assignment nv = fst nv @ equals_sign # snd nv"

definition assignment_ok :: "string \<times> string \<Rightarrow> bool" where
  "assignment_ok nv \<longleftrightarrow> plain equals_sign [fst nv, snd nv]"

lemma assign_ok: "assignment_ok nv \<Longrightarrow> assign (assignment nv) e = Inr (setenv (fst nv) (snd nv) e)"
  by (cases nv) (simp add: assign_def assignment_def assignment_ok_def plain_def strtok_more strtok_last)

text \<open>An argument of equals signs only, or of nothing, has no name.\<close>

definition nameless :: "string \<Rightarrow> bool" where
  "nameless x \<longleftrightarrow> set x \<subseteq> {equals_sign}"

lemma assign_nameless: "nameless x \<Longrightarrow> assign x e = Inr e"
proof -
  assume "nameless x"
  then have "dropWhile (\<lambda>c. c = equals_sign) x = []" by (auto simp: nameless_def)
  then show ?thesis by (simp add: assign_def strtok_def)
qed

lemma assignment_not_nameless: "assignment_ok nv \<Longrightarrow> \<not> nameless (assignment nv)"
  by (cases "fst nv") (auto simp: assignment_ok_def plain_def nameless_def assignment_def)

lemma assign_all_ok:
  "filter (\<lambda>x. \<not> nameless x) args = map assignment nvs \<Longrightarrow> \<forall>nv \<in> set nvs. assignment_ok nv \<Longrightarrow>
    assign_all (args @ rest) e = assign_all rest (fold (\<lambda>(n, v). setenv n v) nvs e)"
proof (induction args arbitrary: nvs e)
  case (Cons x args)
  show ?case
  proof (cases "nameless x")
    case True
    then show ?thesis using Cons by (simp add: assign_nameless)
  next
    case False
    then obtain nv nvs' where "nvs = nv # nvs'" "x = assignment nv" "filter (\<lambda>x. \<not> nameless x) args = map assignment nvs'"
      using Cons.prems(1) by (cases nvs) auto
    then show ?thesis using Cons.IH [of nvs'] Cons.prems(2) by (simp add: assign_ok case_prod_beta)
  qed
qed simp

lemma setenv_lookup: "setenv n v e = (if map_of e n = None then e @ [(n, v)] else e)"
  by (simp add: setenv_def map_of_eq_None_iff)

lemma fold_setenv_lookup:
  "map_of (fold (\<lambda>(n, v). setenv n v) nvs e) x = (case map_of e x of None \<Rightarrow> map_of nvs x | Some v \<Rightarrow> Some v)"
proof (induction nvs arbitrary: e)
  case Nil
  then show ?case by (simp split: option.split)
next
  case (Cons nv nvs)
  obtain n v where nv: "nv = (n, v)" by (cases nv)
  have "map_of (setenv n v e) x = (case map_of e x of None \<Rightarrow> if x = n then Some v else None | Some w \<Rightarrow> Some w)"
    using setenv_lookup [of n v e] by (auto simp: map_add_def split: option.splits)
  then show ?case using Cons.IH [of "setenv n v e"] by (auto simp: nv split: option.splits)
qed

text \<open>C35: the printed environment gives every variable the value it had, or else the first value among the
  assignments behind the first argument; the first argument is never used, and arguments without a
  name (empty, or equals signs only), anywhere among the others, change nothing. An argument with a
  name but without an equals sign, or without a value behind it, ends the program with a null pointer.\<close>
theorem environment_is_printed:
  assumes "filter (\<lambda>x. \<not> nameless x) args = map assignment nvs" "\<forall>nv \<in> set nvs. assignment_ok nv"
  shows "(\<exists>e'. main_env True (a # b # args) e = Inr (map assignment e') \<and>
            (\<forall>x. map_of e' x = (case map_of e x of None \<Rightarrow> map_of nvs x | Some v \<Rightarrow> Some v))) \<and>
         (w \<noteq> [] \<and> equals_sign \<notin> set w \<longrightarrow> main_env True (a # b # args @ w # rest) e = Inl Null_deref \<and>
            main_env True (a # b # args @ (w @ [equals_sign]) # rest) e = Inl Null_deref)"
proof -
  have p: "main_printer e' = map assignment e'" for e' by (simp add: main_printer_def assignment_def case_prod_beta)
  have app: "assign_all (args @ more) e = assign_all more (fold (\<lambda>(n, v). setenv n v) nvs e)" for more
    using assms by (rule assign_all_ok)
  have "assign w e' = Inl Null_deref \<and> assign (w @ [equals_sign]) e' = Inl Null_deref" if "w \<noteq> []" "equals_sign \<notin> set w" for e'
    using that strtok_last [of w equals_sign] strtok_more [of w equals_sign "[]"] by (simp add: assign_def)
  then show ?thesis
    using app [of "[]"] app [of "w # rest"] app [of "(w @ [equals_sign]) # rest"]
    by (auto simp: main_env_def fold_setenv_lookup p)
qed

theorem environment_is_printed_witness:
  "main_env True [''env'', ''A=1'', ''B=2'', ''='', ''HOME=x'', ''C'', ''D''] [(''HOME'', ''/'')] = Inl Null_deref \<and>
   (\<exists>e. main_env True [''env'', ''A=1'', ''B=2'', ''='', ''HOME=x''] [(''HOME'', ''/'')] = Inr (map assignment e) \<and>
      map_of e ''B'' = Some ''2'' \<and> map_of e ''HOME'' = Some ''/'' \<and> map_of e ''A'' = None)"
proof -
  have "filter (\<lambda>x. \<not> nameless x) [''B=2'', ''='', ''HOME=x''] = map assignment [(''B'', ''2''), (''HOME'', ''x'')]"
    by (simp add: nameless_def assignment_def equals_sign_def)
  moreover have "\<forall>nv \<in> set [(''B'', ''2''), (''HOME'', ''x'')]. assignment_ok nv"
    by (simp add: assignment_ok_def plain_def equals_sign_def)
  ultimately show ?thesis
    using environment_is_printed [of "[''B=2'', ''='', ''HOME=x'']" "[(''B'', ''2''), (''HOME'', ''x'')]" "''env''" "''A=1''"
        "[(''HOME'', ''/'')]" "''C''" "[''D'']"]
    by (simp add: equals_sign_def) auto
qed

end
