(* ===== verification/Flocks.thy ===== *)
theory Flocks
  imports Prelude
begin

section \<open>Record locks: \<open>flocks/setlk.c\<close> and \<open>flocks/getlk.c\<close>\<close>

text \<open>
  \<open>setlk\<close> sets two write locks and sleeps, \<open>getlk\<close> reports the locks other processes hold on a file.
  A request of \<open>F_GETLK\<close> is answered with the first conflicting lock of the kernel's list, with the
  type \<open>F_UNLCK\<close> (and nothing else changed) when there is none, and with an error when its own type
  is \<open>F_UNLCK\<close>. A length of 0 means up to the end of the file, however far that is.
\<close>

definition F_RDLCK :: int where
  "F_RDLCK = 0"

definition F_WRLCK :: int where
  "F_WRLCK = 1"

definition F_UNLCK :: int where
  "F_UNLCK = 2"

lemmas lock_types = F_RDLCK_def F_WRLCK_def F_UNLCK_def

record flock =
  l_type :: int
  l_start :: int
  l_len :: int
  l_pid :: int

definition overlap :: "flock \<Rightarrow> flock \<Rightarrow> bool" where
  "overlap f g \<longleftrightarrow> (l_len f = 0 \<or> l_start g < l_start f + l_len f) \<and> (l_len g = 0 \<or> l_start f < l_start g + l_len g)"

definition conflict :: "flock \<Rightarrow> flock \<Rightarrow> bool" where
  "conflict f g \<longleftrightarrow> overlap f g \<and> (l_type f = F_WRLCK \<or> l_type g = F_WRLCK)"

definition fcntl_getlk :: "flock list \<Rightarrow> flock \<Rightarrow> flock option" where
  "fcntl_getlk locks f =
     (if l_type f \<noteq> F_RDLCK \<and> l_type f \<noteq> F_WRLCK then None
      else case find (conflict f) locks of None \<Rightarrow> Some (f\<lparr>l_type := F_UNLCK\<rparr>) | Some g \<Rightarrow> Some g)"

subsection \<open>The programs\<close>

text \<open>The variable \<open>i\<close> is an \<open>int\<close>; compared with the length of the file it counts as unsigned.\<close>

definition int32 :: "int \<Rightarrow> int" where
  "int32 x = (x + 2 ^ 31) mod 2 ^ 32 - 2 ^ 31"

type_synonym report = "string \<times> flock"

definition type_text :: "int \<Rightarrow> string" where
  "type_text t = (if t = F_WRLCK then ''l_type = F_WRLCK, '' else []) @ (if t = F_RDLCK then ''l_type = F_RDLCK, '' else [])"

text \<open>The loop of \<open>getlk\<close>: the lines printed, each as its text and the lock whose fields follow it.
  \<open>None\<close>: still running after that many rounds.\<close>

fun getlk_loop :: "nat \<Rightarrow> flock list \<Rightarrow> int \<Rightarrow> int \<Rightarrow> flock \<Rightarrow> report list \<Rightarrow> report list option" where
  "getlk_loop 0 locks len i f1 out = None"
| "getlk_loop (Suc n) locks len i f1 out =
     (if 0 \<le> i \<and> i < len then
        (case fcntl_getlk locks f1 of
           None \<Rightarrow> getlk_loop n locks len (int32 (i + 1)) (f1\<lparr>l_start := l_start f1 + 1\<rparr>) out
         | Some g \<Rightarrow>
             if l_type g \<noteq> F_UNLCK then
               (let i = int32 (l_start g + l_len g)
                in getlk_loop n locks len i (g\<lparr>l_len := 0, l_pid := 0, l_start := i\<rparr>) (out @ [(type_text (l_type g), g)]))
             else getlk_loop n locks len (int32 (i + 1)) (g\<lparr>l_start := l_start g + 1\<rparr>) out)
      else Some out)"

text \<open>\<open>main\<close> of \<open>getlk.c\<close>: what it returns and prints; \<open>file\<close> is the length and the locks of a file that
  can be opened.\<close>

datatype printed = Text string | Report report

definition main_getlk :: "nat \<Rightarrow> nat \<Rightarrow> (int \<times> flock list) option \<Rightarrow> (int \<times> printed list) option" where
  "main_getlk n argc file =
     (if argc < 2 then Some (- 1, [Text ''argc < 2''])
      else case file of
        None \<Rightarrow> Some (- 1, [Text ''open''])
      | Some (len, locks) \<Rightarrow>
          map_option (\<lambda>out. (0, if out = [] then [Text ''l_type = F_UNLCK''] else map Report out))
            (getlk_loop n locks len 0 \<lparr>l_type = F_RDLCK, l_start = 0, l_len = 0, l_pid = 0\<rparr> []))"

text \<open>\<open>main\<close> of \<open>setlk.c\<close>: what it returns and prints, and the locks it holds while it sleeps.
  \<open>F_SETLK\<close> fails when another process holds a conflicting lock.\<close>

definition fcntl_setlk :: "flock list \<Rightarrow> flock \<Rightarrow> bool" where
  "fcntl_setlk locks f \<longleftrightarrow> (\<forall>g \<in> set locks. \<not> conflict f g)"

definition lock_1 :: "int \<Rightarrow> flock" where
  "lock_1 pid = \<lparr>l_type = F_WRLCK, l_start = 1, l_len = 1, l_pid = pid\<rparr>"

definition lock_2 :: "int \<Rightarrow> flock" where
  "lock_2 pid = \<lparr>l_type = F_WRLCK, l_start = 5, l_len = 2, l_pid = pid\<rparr>"

definition main_setlk :: "int \<Rightarrow> nat \<Rightarrow> flock list option \<Rightarrow> int \<times> string list \<times> flock list" where
  "main_setlk pid argc file =
     (if argc < 2 then (- 1, [''argc < 2''], [])
      else case file of
        None \<Rightarrow> (- 1, [''open''], [])
      | Some others \<Rightarrow>
          if \<not> fcntl_setlk others (lock_1 pid) then (- 1, [''fcntl 1, setlk''], [])
          else if \<not> fcntl_setlk others (lock_2 pid) then (- 1, [''fcntl 2, setlk''], [lock_1 pid])
          else (0, [], [lock_1 pid, lock_2 pid]))"

subsection \<open>Lemmas\<close>

lemma int32_small: "0 \<le> x \<Longrightarrow> x < 2 ^ 31 \<Longrightarrow> int32 x = x"
  by (simp add: int32_def)

lemma unlocked_runs:
  assumes "len < 2 ^ 31" "0 \<le> i" "nat (len - i) < n"
    and "\<And>x. fcntl_getlk locks (f1\<lparr>l_start := x\<rparr>) = None"
  shows "getlk_loop n locks len i f1 out = Some out"
  using assms
proof (induction n arbitrary: i f1)
  case (Suc n)
  show ?case
  proof (cases "i < len")
    case True
    have "fcntl_getlk locks f1 = None" using Suc.prems(4) [of "l_start f1"] by simp
    moreover have "int32 (i + 1) = i + 1" using Suc.prems True by (intro int32_small) auto
    moreover have "getlk_loop n locks len (i + 1) (f1\<lparr>l_start := l_start f1 + 1\<rparr>) out = Some out"
      using Suc.prems True by (intro Suc.IH) auto
    ultimately show ?thesis using Suc.prems True by simp
  qed simp
qed simp

text \<open>Write locks in order, apart from each other, with a length, behind the position \<open>i\<close>.\<close>

fun in_order :: "int \<Rightarrow> flock list \<Rightarrow> bool" where
  "in_order i [] = True"
| "in_order i (g # gs) \<longleftrightarrow> l_type g = F_WRLCK \<and> i \<le> l_start g \<and> 0 < l_len g \<and> l_start g + l_len g < 2 ^ 31 \<and>
     in_order (l_start g + l_len g) gs"

lemma in_order_mono: "in_order i gs \<Longrightarrow> j \<le> i \<Longrightarrow> in_order j gs"
  by (cases gs) auto

lemma find_behind: "in_order i gs \<Longrightarrow> l_len f = 0 \<Longrightarrow> l_start f \<le> i \<Longrightarrow>
    find (conflict f) gs = (case gs of [] \<Rightarrow> None | g # _ \<Rightarrow> Some g)"
  by (cases gs) (auto simp: conflict_def overlap_def)

text \<open>All the locks in front of the position have been reported and are left out of the answers.\<close>

definition passed :: "int \<Rightarrow> flock list \<Rightarrow> bool" where
  "passed i gs \<longleftrightarrow> (\<forall>g \<in> set gs. l_len g \<noteq> 0 \<and> l_start g + l_len g \<le> i)"

lemma find_passed: "passed i gs \<Longrightarrow> l_start f = i \<Longrightarrow> find (conflict f) (gs @ hs) = find (conflict f) hs"
  by (induction gs) (auto simp: passed_def conflict_def overlap_def)

lemma reports_in_order:
  assumes "len < 2 ^ 31" "0 \<le> i" "in_order i gs" "passed i old" "l_start f1 = i" "l_len f1 = 0"
    and "l_type f1 \<in> {F_RDLCK, F_WRLCK}" "\<forall>g \<in> set gs. l_start g < len" "nat (len - i) + 1 < n"
  shows "getlk_loop n (old @ gs) len i f1 out = Some (out @ map (\<lambda>g. (type_text F_WRLCK, g)) gs)"
  using assms
proof (induction gs arbitrary: n i f1 old out)
  case Nil
  then obtain m where n: "n = Suc m" by (cases n) auto
  have "find (conflict f1) old = None" using find_passed [OF Nil.prems(4,5), of "[]"] by simp
  then have a: "fcntl_getlk old f1 = Some (f1\<lparr>l_type := F_UNLCK\<rparr>)"
    using Nil.prems(7) by (auto simp: fcntl_getlk_def)
  show ?case
  proof (cases "i < len")
    case True
    have "getlk_loop m old len (i + 1) (f1\<lparr>l_type := F_UNLCK, l_start := l_start f1 + 1\<rparr>) out = Some out"
      using Nil.prems n True by (intro unlocked_runs) (auto simp: fcntl_getlk_def lock_types)
    moreover have "int32 (i + 1) = i + 1" using Nil.prems True by (intro int32_small) auto
    ultimately show ?thesis using a True Nil.prems n by simp
  qed (simp add: n)
next
  case (Cons g gs)
  then obtain m where n: "n = Suc m" by (cases n) auto
  let ?i = "l_start g + l_len g"
  have g: "l_type g = F_WRLCK" "i \<le> l_start g" "0 < l_len g" "?i < 2 ^ 31" "in_order ?i gs" "l_start g < len"
    using Cons.prems by auto
  have "find (conflict f1) (old @ g # gs) = Some g"
    using find_passed [OF Cons.prems(4,5), of "g # gs"] find_behind [OF Cons.prems(3), of f1] Cons.prems by simp
  then have a: "fcntl_getlk (old @ g # gs) f1 = Some g" using Cons.prems(7) by (auto simp: fcntl_getlk_def)
  have i: "int32 ?i = ?i" using g Cons.prems(2) by (intro int32_small) auto
  have "passed ?i (old @ [g])" using Cons.prems(4) g by (auto simp: passed_def)
  then have "getlk_loop m ((old @ [g]) @ gs) len ?i (g\<lparr>l_len := 0, l_pid := 0, l_start := ?i\<rparr>)
      (out @ [(type_text F_WRLCK, g)]) = Some ((out @ [(type_text F_WRLCK, g)]) @ map (\<lambda>g. (type_text F_WRLCK, g)) gs)"
    using g Cons.prems n by (intro Cons.IH) auto
  then show ?case using a g i Cons.prems n by (simp add: lock_types Let_def)
qed

subsection \<open>Properties\<close>

text \<open>C36: when the other processes hold write locks that lie apart, in order and inside the file, \<open>getlk\<close>
  ends after at most as many rounds as the file has bytes, and reports each lock once, in order, and
  without locks that there are none. So the two locks of \<open>setlk\<close> are reported as they were set.\<close>
theorem write_locks_are_reported:
  assumes "in_order 0 gs" "\<forall>g \<in> set gs. l_start g < len" "0 \<le> len" "len < 2 ^ 31" "nat len + 1 < n"
  shows "main_getlk n (Suc (Suc k)) (Some (len, gs)) =
     Some (0, if gs = [] then [Text ''l_type = F_UNLCK''] else map (\<lambda>g. Report (''l_type = F_WRLCK, '', g)) gs)"
proof -
  have "getlk_loop n ([] @ gs) len 0 \<lparr>l_type = F_RDLCK, l_start = 0, l_len = 0, l_pid = 0\<rparr> [] =
      Some ([] @ map (\<lambda>g. (type_text F_WRLCK, g)) gs)"
    using assms by (intro reports_in_order) (auto simp: passed_def)
  then show ?thesis by (simp add: main_getlk_def comp_def type_text_def lock_types)
qed

theorem write_locks_are_reported_witness:
  "main_getlk 20 2 (Some (10, snd (snd (main_setlk 7 2 (Some []))))) =
     Some (0, [Report (''l_type = F_WRLCK, '', lock_1 7), Report (''l_type = F_WRLCK, '', lock_2 7)])"
proof -
  have s: "snd (snd (main_setlk 7 2 (Some []))) = [lock_1 7, lock_2 7]" by (simp add: main_setlk_def fcntl_setlk_def)
  have "in_order 0 [lock_1 7, lock_2 7]" "\<forall>g \<in> set [lock_1 7, lock_2 7]. l_start g < 10"
    by (simp_all add: lock_1_def lock_2_def)
  from write_locks_are_reported [OF this, of 20 0] show ?thesis unfolding s by (simp add: numeral_2_eq_2)
qed

text \<open>A lock up to the end of the file makes \<open>getlk\<close> report it for ever: the length 0 leaves the
  position where the lock starts.\<close>
theorem lock_to_end_is_reported_for_ever:
  assumes "l_type g = F_WRLCK" "l_len g = 0" "0 \<le> l_start g" "l_start g < len" "len < 2 ^ 31"
  shows "main_getlk n (Suc (Suc k)) (Some (len, [g])) = None"
proof -
  have i: "int32 (l_start g) = l_start g" using assms by (intro int32_small) auto
  have "fcntl_getlk [g] f1 = Some g" if "l_type f1 \<in> {F_RDLCK, F_WRLCK}" "l_len f1 = 0" for f1
    using that assms by (auto simp: fcntl_getlk_def conflict_def overlap_def)
  then have "getlk_loop n [g] len j f1 out = None"
    if "0 \<le> j" "j < len" "l_type f1 \<in> {F_RDLCK, F_WRLCK}" "l_len f1 = 0" for n j f1 out
    using that
  proof (induction n arbitrary: j f1 out)
    case (Suc n)
    then show ?case using assms i by (simp add: lock_types Let_def)
  qed simp
  from this [of 0 "\<lparr>l_type = F_RDLCK, l_start = 0, l_len = 0, l_pid = 0\<rparr>" n "[]"] show ?thesis
    using assms by (simp add: main_getlk_def)
qed

theorem lock_to_end_is_reported_for_ever_witness:
  "main_getlk 1000 2 (Some (10, [\<lparr>l_type = 1, l_start = 3, l_len = 0, l_pid = 7\<rparr>])) = None"
  using lock_to_end_is_reported_for_ever [of "\<lparr>l_type = 1, l_start = 3, l_len = 0, l_pid = 7\<rparr>" 10 1000 0]
  by (simp add: lock_types numeral_2_eq_2)

end
