(* ===== verification/PollProg.thy ===== *)
theory PollProg
  imports Prelude
begin

section \<open>Reading several files as they get ready: \<open>poll/main.c\<close>\<close>

text \<open>
  The program opens its files without blocking and polls them until each has been ready once; what a
  ready file has to give is printed after its name. The environment is a list of rounds: for every
  file whether the kernel reports an event, and the bytes that can be read then. \<open>poll\<close> ignores an
  entry whose descriptor is negative. The output is a terminal, where lines appear as they are
  printed. The memory for the arrays is there.
\<close>

record pollfd =
  fd :: int
  events :: bool

type_synonym round = "(bool \<times> string) list"

text \<open>One entry of the inner loop: the bytes printed, the entry after it and whether it was counted.\<close>

definition poll_one :: "string \<Rightarrow> pollfd \<Rightarrow> bool \<times> string \<Rightarrow> string \<times> pollfd \<times> bool" where
  "poll_one name st r =
     (let revents = (0 \<le> fd st \<and> events st \<and> fst r)
      in if events st \<and> revents then (''file '' @ name @ [CHR 0x0A] @ snd r @ [CHR 0x0A], st\<lparr>events := False\<rparr>, True)
         else ([], st, False))"

fun poll_round :: "string list \<Rightarrow> pollfd list \<Rightarrow> round \<Rightarrow> string \<times> pollfd list \<times> nat" where
  "poll_round (name # names) (st # sts) (r # rs) =
     (case (poll_one name st r, poll_round names sts rs) of
        ((t, st, b), (u, sts, k)) \<Rightarrow> (t @ u, st # sts, (if b then 1 else 0) + k))"
| "poll_round _ sts _ = ([], sts, 0)"

text \<open>The loop: \<open>None\<close> when the files are still polled after all the rounds.\<close>

fun poll_loop :: "string list \<Rightarrow> pollfd list \<Rightarrow> nat \<Rightarrow> round list \<Rightarrow> string option" where
  "poll_loop names sts flag rounds =
     (if flag = length names then Some []
      else case rounds of
        [] \<Rightarrow> None
      | r # rs \<Rightarrow> (case poll_round names sts r of (t, sts, k) \<Rightarrow> map_option (\<lambda>u. t @ u) (poll_loop names sts (flag + k) rs)))"

declare poll_loop.simps [simp del]

text \<open>\<open>main\<close>: the file names, and the descriptors \<open>open\<close> returns for them.\<close>

definition main_poll :: "string list \<Rightarrow> int list \<Rightarrow> round list \<Rightarrow> string option" where
  "main_poll names fds rounds = poll_loop names (map (\<lambda>f. \<lparr>fd = f, events = True\<rparr>) fds) 0 rounds"

subsection \<open>Which files are done\<close>

definition open_entries :: "pollfd list \<Rightarrow> nat" where
  "open_entries sts = length (filter events sts)"

lemma poll_round_count:
  "length names = length sts \<Longrightarrow> length r = length sts \<Longrightarrow> poll_round names sts r = (t, sts', k) \<Longrightarrow>
     length sts' = length sts \<and> map fd sts' = map fd sts \<and> open_entries sts' + k = open_entries sts \<and>
     (\<forall>i < length sts. events (sts' ! i) \<longleftrightarrow> events (sts ! i) \<and> \<not> (0 \<le> fd (sts ! i) \<and> fst (r ! i)))"
proof (induction names sts r arbitrary: t sts' k rule: poll_round.induct)
  case (1 name names st sts r rs)
  obtain u sts1 k1 where p: "poll_round names sts rs = (u, sts1, k1)" by (cases "poll_round names sts rs")
  have ih: "length sts1 = length sts" "map fd sts1 = map fd sts" "open_entries sts1 + k1 = open_entries sts"
    "\<forall>i < length sts. events (sts1 ! i) \<longleftrightarrow> events (sts ! i) \<and> \<not> (0 \<le> fd (sts ! i) \<and> fst (rs ! i))"
    using "1.IH" [OF _ _ p] "1.prems" by simp_all
  show ?case
    using "1.prems"(3) p ih
    by (cases "events st \<and> 0 \<le> fd st \<and> fst r")
      (auto simp: poll_one_def open_entries_def Let_def nth_Cons less_Suc_eq_0_disj split: nat.splits)
qed (auto simp: open_entries_def)

text \<open>The rounds in which a file is ready.\<close>

definition ready_in :: "nat \<Rightarrow> round list \<Rightarrow> bool" where
  "ready_in i rounds \<longleftrightarrow> (\<exists>r \<in> set rounds. fst (r ! i))"

lemma loop_ends_iff:
  assumes "length names = length sts" "\<forall>r \<in> set rounds. length r = length sts"
    and "flag + open_entries sts = length names"
  shows "poll_loop names sts flag rounds \<noteq> None \<longleftrightarrow>
     (\<forall>i < length sts. events (sts ! i) \<longrightarrow> 0 \<le> fd (sts ! i) \<and> ready_in i rounds)"
  using assms
proof (induction rounds arbitrary: sts flag)
  case Nil
  have "open_entries sts = 0 \<longleftrightarrow> (\<forall>i < length sts. \<not> events (sts ! i))"
    unfolding open_entries_def by (auto simp: filter_empty_conv all_set_conv_all_nth)
  then show ?case using Nil.prems by (auto simp: poll_loop.simps [of names sts flag] ready_in_def)
next
  case (Cons r rs)
  obtain t sts' k where p: "poll_round names sts r = (t, sts', k)" by (cases "poll_round names sts r")
  have c: "length sts' = length sts" "map fd sts' = map fd sts" "open_entries sts' + k = open_entries sts"
    "\<forall>i < length sts. events (sts' ! i) \<longleftrightarrow> events (sts ! i) \<and> \<not> (0 \<le> fd (sts ! i) \<and> fst (r ! i))"
    using poll_round_count [OF Cons.prems(1) _ p] Cons.prems(2) by simp_all
  have f: "fd (sts' ! i) = fd (sts ! i)" if "i < length sts" for i
    using c(1,2) that by (metis nth_map)
  show ?case
  proof (cases "flag = length names")
    case True
    then have "filter events sts = []" using Cons.prems(3) by (simp add: open_entries_def)
    then have "\<forall>i < length sts. \<not> events (sts ! i)" by (simp add: filter_empty_conv all_set_conv_all_nth)
    then show ?thesis using True by (simp add: poll_loop.simps [of names sts "length names"])
  next
    case False
    have "poll_loop names sts' (flag + k) rs \<noteq> None \<longleftrightarrow>
        (\<forall>i < length sts'. events (sts' ! i) \<longrightarrow> 0 \<le> fd (sts' ! i) \<and> ready_in i rs)"
      using Cons.prems c by (intro Cons.IH) auto
    moreover have "poll_loop names sts flag (r # rs) \<noteq> None \<longleftrightarrow> poll_loop names sts' (flag + k) rs \<noteq> None"
      using False p by (simp add: poll_loop.simps [of names sts flag])
    ultimately show ?thesis using c f by (auto simp: ready_in_def)
  qed
qed

subsection \<open>Properties\<close>

text \<open>C37: the program ends if and only if every file could be opened and gets ready at some time: a single
  name that cannot be opened keeps it polling for ever.\<close>
theorem poll_ends_iff_all_ready:
  assumes "length fds = length names" "\<forall>r \<in> set rounds. length r = length names"
  shows "main_poll names fds rounds \<noteq> None \<longleftrightarrow> (\<forall>i < length names. 0 \<le> fds ! i \<and> ready_in i rounds)"
proof -
  have "open_entries (map (\<lambda>f. \<lparr>fd = f, events = True\<rparr>) fds) = length fds"
    unfolding open_entries_def by (simp add: filter_map comp_def)
  then show ?thesis
    unfolding main_poll_def using assms by (subst loop_ends_iff) auto
qed

theorem poll_ends_iff_all_ready_witness:
  "main_poll [''a'', ''b''] [3, - 1] (replicate 50 [(True, ''x''), (True, ''y'')]) = None \<and>
   main_poll [''a'', ''b''] [3, 4] [[(False, []), (True, ''y'')], [(True, ''x''), (True, ''z'')]] \<noteq> None"
proof -
  have "main_poll [''a'', ''b''] [3, - 1] (replicate 50 [(True, ''x''), (True, ''y'')]) = None"
    using poll_ends_iff_all_ready [of "[3, - 1]" "[''a'', ''b'']" "replicate 50 [(True, ''x''), (True, ''y'')]"]
    by (auto simp: less_Suc_eq)
  moreover have "main_poll [''a'', ''b''] [3, 4] [[(False, []), (True, ''y'')], [(True, ''x''), (True, ''z'')]] \<noteq> None"
    using poll_ends_iff_all_ready [of "[3, 4]" "[''a'', ''b'']" "[[(False, []), (True, ''y'')], [(True, ''x''), (True, ''z'')]]"]
    by (auto simp: less_Suc_eq ready_in_def)
  ultimately show ?thesis by blast
qed

end
