(* ===== verification/CmdServer.thy ===== *)
theory CmdServer
  imports Proc
begin

section \<open>The command servers and their clients: \<open>socket/\<close> and \<open>tcp/\<close>\<close>

text \<open>
  A client sends one line to a server, over a socket of the file system (\<open>socket/\<close>) or over TCP
  (\<open>tcp/\<close>); the server prints what is behind \<open>print\<close>, and ends at \<open>exit\<close>. The two pairs differ only
  in the address. The environment of a server is what \<open>accept\<close> and \<open>read\<close> give for one client after
  the other; a server that runs out of clients is still waiting. Printed texts are the arguments of
  \<open>printf("%s")\<close>.
\<close>

datatype connection = Accept_fails | Read_fails | Request buf

definition print_word :: string where
  "print_word = ''print''"

definition exit_word :: string where
  "exit_word = ''exit''"

text \<open>The handling of one request: the printed argument, and whether the loop is left. The text
  starts at \<open>sizeof("print")\<close>, which counts the final NUL: one byte behind the word.\<close>

definition request :: "buf \<Rightarrow> arg list \<times> bool" where
  "request sent =
     (let buffer = write_at (replicate BUFSZ nul) 0 (take BUFSZ sent)
      in (if strncmp_eq (length print_word) buffer print_word then [str_arg (drop (length print_word + 1) buffer)] else [],
          strncmp_eq (length exit_word) buffer exit_word))"

fun serve :: "connection list \<Rightarrow> arg list \<times> ret" where
  "serve [] = ([], Running)"
| "serve (Accept_fails # cs) = ([S ''accept''], Exited 1)"
| "serve (Read_fails # cs) = ([S ''read''], Exited 1)"
| "serve (Request sent # cs) =
     (case request sent of (out, stop) \<Rightarrow>
        if stop then (out, Exited 0) else (case serve cs of (rest, r) \<Rightarrow> (out @ rest, r)))"

text \<open>The servers: whether \<open>socket\<close>, \<open>bind\<close> and \<open>listen\<close> succeed, and the clients. The one with a name
  in the file system removes it at the end; the third component tells that.\<close>

definition main_server_unix :: "bool \<Rightarrow> bool \<Rightarrow> bool \<Rightarrow> connection list \<Rightarrow> arg list \<times> ret \<times> bool" where
  "main_server_unix socket_ok bind_ok listen_ok cs =
     (if \<not> socket_ok then ([S ''socket''], Ret 1, False)
      else if \<not> bind_ok then ([S ''bind''], Ret 1, False)
      else if \<not> listen_ok then ([S ''listen''], Ret 1, False)
      else case serve cs of (out, r) \<Rightarrow> (out, r, r = Exited 0))"

definition main_server_tcp :: "bool \<Rightarrow> bool \<Rightarrow> bool \<Rightarrow> connection list \<Rightarrow> arg list \<times> ret" where
  "main_server_tcp socket_ok bind_ok listen_ok cs =
     (if \<not> socket_ok then ([S ''socket''], Ret 1)
      else if \<not> bind_ok then ([S ''bind''], Ret 1)
      else if \<not> listen_ok then ([S ''listen''], Ret 1)
      else serve cs)"

text \<open>The clients: what they send, if they get there. They read from descriptor 1, a terminal; the buffer
  is sent as a whole. \<open>typed\<close> is \<open>None\<close> when the read fails.\<close>

definition main_client_unix :: "bool \<Rightarrow> bool \<Rightarrow> buf option \<Rightarrow> bool \<Rightarrow> arg list \<times> ret \<times> buf option" where
  "main_client_unix socket_ok connect_ok typed write_ok =
     (if \<not> socket_ok then ([S ''socket''], Exited 1, None)
      else if \<not> connect_ok then ([S ''connect''], Ret 1, None)
      else case typed of
        None \<Rightarrow> ([S ''read''], Exited 1, None)
      | Some line \<Rightarrow>
          let buffer = write_at (replicate BUFSZ nul) 0 (take BUFSZ line)
          in if write_ok then ([], Ret 0, Some buffer) else ([S ''write''], Exited 1, None))"

text \<open>The TCP client converts its argument to an address first: without one \<open>inet_addr\<close> gets a null
  pointer.\<close>

definition main_client_tcp :: "nat \<Rightarrow> bool \<Rightarrow> bool \<Rightarrow> buf option \<Rightarrow> bool \<Rightarrow> (arg list \<times> ret \<times> buf option) res" where
  "main_client_tcp argc socket_ok connect_ok typed write_ok =
     (if socket_ok \<and> argc < 2 then Inl Null_deref
      else Inr (main_client_unix socket_ok connect_ok typed write_ok))"

subsection \<open>Properties\<close>

text \<open>The line a user types, and what the server makes of it.\<close>

definition sent_line :: "string \<Rightarrow> connection" where
  "sent_line s = (case main_client_unix True True (Some s) True of (_, _, b) \<Rightarrow> Request (the b))"

lemma sent_line_request:
  assumes "length s < BUFSZ"
  shows "sent_line s = Request (s @ replicate (BUFSZ - length s) nul)"
  using assms by (simp add: sent_line_def main_client_unix_def write_at_def)

lemma request_padded:
  assumes "length s < BUFSZ" "nul \<notin> set s"
  shows "request (s @ replicate (BUFSZ - length s) nul) =
     (if take (length print_word) s = print_word then [S (drop (length print_word + 1) s)] else [],
      take (length exit_word) s = exit_word)"
proof -
  let ?b = "s @ replicate (BUFSZ - length s) nul"
  have c: "cstr (t @ replicate k nul) = t" if "nul \<notin> set t" for t k using that by (simp add: cstr_append_no_nul)
  have b: "write_at (replicate BUFSZ nul) 0 (take BUFSZ ?b) = ?b" using assms(1) by (simp add: write_at_def)
  have eq: "strncmp_eq (length p) ?b p \<longleftrightarrow> take (length p) s = p" if "nul \<notin> set p" for p
    unfolding strncmp_eq_def c [OF assms(2)] cstr_no_nul [OF that] by simp
  have shown: "str_arg (drop k ?b) = S (drop k s)" if "k < BUFSZ" for k
  proof -
    have z: "drop k ?b = drop k s @ replicate (BUFSZ - length s - (k - length s)) nul" by simp
    have "0 < BUFSZ - length s - (k - length s)" using assms(1) that by linarith
    moreover have "nul \<notin> set (drop k s)" using assms(2) in_set_dropD by fast
    ultimately show ?thesis unfolding z str_arg_def using c by simp
  qed
  have "nul \<notin> set print_word" "nul \<notin> set exit_word" by (simp_all add: print_word_def exit_word_def)
  note eqs = eq [OF this(1)] eq [OF this(2)]
  have "length print_word + 1 < BUFSZ" by (simp add: print_word_def BUFSZ_def)
  from shown [OF this] show ?thesis unfolding request_def b Let_def eqs by (simp only:)
qed

definition line_ok :: "string \<Rightarrow> bool" where
  "line_ok s \<longleftrightarrow> length s < BUFSZ \<and> nul \<notin> set s"

definition answer_to :: "string \<Rightarrow> arg list" where
  "answer_to s = (if take (length print_word) s = print_word then [S (drop (length print_word + 1) s)] else [])"

lemma serve_line:
  "line_ok s \<Longrightarrow> serve (sent_line s # cs) =
     (if take (length exit_word) s = exit_word then (answer_to s, Exited 0)
      else (answer_to s @ fst (serve cs), snd (serve cs)))"
  by (simp add: line_ok_def sent_line_request request_padded answer_to_def case_prod_beta)

lemma serve_lines:
  "\<forall>s \<in> set ss. line_ok s \<and> take (length exit_word) s \<noteq> exit_word \<Longrightarrow> line_ok e \<Longrightarrow> take (length exit_word) e = exit_word \<Longrightarrow>
     serve (map sent_line ss @ sent_line e # cs) = (concat (map answer_to ss) @ answer_to e, Exited 0)"
  by (induction ss) (simp_all add: serve_line)

lemma exit_prints_nothing: "take (length exit_word) e = exit_word \<Longrightarrow> answer_to e = []"
proof -
  assume e: "take (length exit_word) e = exit_word"
  have "take (length print_word) e \<noteq> print_word"
  proof
    assume "take (length print_word) e = print_word"
    with e show False by (cases e) (auto simp: print_word_def exit_word_def)
  qed
  then show ?thesis by (simp add: answer_to_def)
qed

text \<open>C38: lines typed into one client after the other reach either server unchanged: it prints for each
  line with \<open>print\<close> the text behind the word and one more byte, ignores the other lines, and ends at
  the first line with \<open>exit\<close>, where the server with a name removes it.\<close>
theorem typed_lines_are_printed:
  assumes "\<forall>s \<in> set ss. line_ok s \<and> take (length exit_word) s \<noteq> exit_word"
    and "line_ok e" "take (length exit_word) e = exit_word"
  shows "main_server_unix True True True (map sent_line ss @ sent_line e # cs) = (concat (map answer_to ss), Exited 0, True) \<and>
         main_server_tcp True True True (map sent_line ss @ sent_line e # cs) = (concat (map answer_to ss), Exited 0)"
  using serve_lines [OF assms] exit_prints_nothing [OF assms(3)] by (simp add: main_server_unix_def main_server_tcp_def)

theorem typed_lines_are_printed_witness:
  "main_server_tcp True True True [sent_line ''print Hi'', sent_line ''ls'', sent_line ''exit''] = ([S ''Hi''], Exited 0)"
  using typed_lines_are_printed [of "[''print Hi'', ''ls'']" "''exit''" "[]"]
  by (simp add: line_ok_def BUFSZ_def exit_word_def answer_to_def print_word_def)

end
