(* ===== verification/Msg.thy ===== *)
theory Msg
  imports Schedule
begin

section \<open>Two programs that exchange their numbers: \<open>msg/sen.c\<close> and \<open>msg/rec.c\<close>\<close>

text \<open>
  \<open>sen\<close> makes a message queue, sends its process number as a message of type 1 and waits for one of
  type 2; \<open>rec\<close> answers. The key names at most one queue at a time; removing a queue makes the calls on
  it fail, and a failed \<open>msgrcv\<close> leaves the message as it was, in \<open>rec\<close> never written. A step is one
  system call or print.
\<close>

datatype sen_pc = S_Get | S_Rm | S_Get_new | S_Snd | S_Print_sent | S_Rcv | S_Print_received | S_Rm_end | S_Done

datatype rec_pc = R_Get | R_Rcv | R_Print_received | R_Snd | R_Print_sent | R_Done

record mq =
  queue_id :: "nat option"
  queue :: "(int \<times> int) list"
  next_id :: nat
  sen_pc :: sen_pc
  sen_id :: nat
  sen_msg :: int
  sen_out :: "int list"
  rec_pc :: rec_pc
  rec_id :: "nat option"
  rec_msg :: "int option"
  rec_out :: "int option list"

text \<open>\<open>msgget\<close> with \<open>IPC_CREAT\<close>, \<open>msgctl\<close> with \<open>IPC_RMID\<close>, \<open>msgsnd\<close> of a message and \<open>msgrcv\<close> of a type:
  \<open>Blocks\<close> when the queue is there and no such message in it.\<close>

definition msgget_creat :: "mq \<Rightarrow> nat \<times> mq" where
  "msgget_creat s = (case queue_id s of
       Some k \<Rightarrow> (k, s)
     | None \<Rightarrow> (next_id s, s\<lparr>queue_id := Some (next_id s), queue := [], next_id := next_id s + 1\<rparr>))"

definition msgctl_rmid :: "nat \<Rightarrow> mq \<Rightarrow> mq" where
  "msgctl_rmid k s = (if queue_id s = Some k then s\<lparr>queue_id := None, queue := []\<rparr> else s)"

definition msgsnd :: "nat option \<Rightarrow> int \<times> int \<Rightarrow> mq \<Rightarrow> mq" where
  "msgsnd k m s = (if k \<noteq> None \<and> queue_id s = k then s\<lparr>queue := queue s @ [m]\<rparr> else s)"

datatype received = Fails | Blocks | Gets int "(int \<times> int) list"

definition msgrcv :: "nat option \<Rightarrow> int \<Rightarrow> mq \<Rightarrow> received" where
  "msgrcv k t s =
     (if k = None \<or> queue_id s \<noteq> k then Fails
      else case filter (\<lambda>m. fst m = t) (queue s) of
        [] \<Rightarrow> Blocks
      | m # _ \<Rightarrow> Gets (snd m) (remove1 m (queue s)))"

definition sen_step :: "mq process" where
  "sen_step s = (case sen_pc s of
       S_Get \<Rightarrow> (case msgget_creat s of (k, s) \<Rightarrow> Some (s\<lparr>sen_id := k, sen_pc := S_Rm\<rparr>))
     | S_Rm \<Rightarrow> Some ((msgctl_rmid (sen_id s) s)\<lparr>sen_pc := S_Get_new\<rparr>)
     | S_Get_new \<Rightarrow> (case msgget_creat s of (k, s) \<Rightarrow> Some (s\<lparr>sen_id := k, sen_pc := S_Snd\<rparr>))
     | S_Snd \<Rightarrow> Some ((msgsnd (Some (sen_id s)) (1, sen_msg s) s)\<lparr>sen_pc := S_Print_sent\<rparr>)
     | S_Print_sent \<Rightarrow> Some (s\<lparr>sen_out := sen_out s @ [sen_msg s], sen_pc := S_Rcv\<rparr>)
     | S_Rcv \<Rightarrow> (case msgrcv (Some (sen_id s)) 2 s of
           Blocks \<Rightarrow> None
         | Fails \<Rightarrow> Some (s\<lparr>sen_pc := S_Print_received\<rparr>)
         | Gets pid rest \<Rightarrow> Some (s\<lparr>sen_msg := pid, queue := rest, sen_pc := S_Print_received\<rparr>))
     | S_Print_received \<Rightarrow> Some (s\<lparr>sen_out := sen_out s @ [sen_msg s], sen_pc := S_Rm_end\<rparr>)
     | S_Rm_end \<Rightarrow> Some ((msgctl_rmid (sen_id s) s)\<lparr>sen_pc := S_Done\<rparr>)
     | S_Done \<Rightarrow> None)"

definition rec_step :: "int \<Rightarrow> mq process" where
  "rec_step pid s = (case rec_pc s of
       R_Get \<Rightarrow> Some (s\<lparr>rec_id := queue_id s, rec_pc := R_Rcv\<rparr>)
     | R_Rcv \<Rightarrow> (case msgrcv (rec_id s) 1 s of
           Blocks \<Rightarrow> None
         | Fails \<Rightarrow> Some (s\<lparr>rec_pc := R_Print_received\<rparr>)
         | Gets p rest \<Rightarrow> Some (s\<lparr>rec_msg := Some p, queue := rest, rec_pc := R_Print_received\<rparr>))
     | R_Print_received \<Rightarrow> Some (s\<lparr>rec_out := rec_out s @ [rec_msg s], rec_msg := Some pid, rec_pc := R_Snd\<rparr>)
     | R_Snd \<Rightarrow> Some ((msgsnd (rec_id s) (2, pid) s)\<lparr>rec_pc := R_Print_sent\<rparr>)
     | R_Print_sent \<Rightarrow> Some (s\<lparr>rec_out := rec_out s @ [Some pid], rec_pc := R_Done\<rparr>)
     | R_Done \<Rightarrow> None)"


subsection \<open>The invariant once the sender has its queue\<close>

text \<open>What is in the queue while the sender waits, and what the receiver has done once it has answered.\<close>

definition waiting_for_answer :: "int \<Rightarrow> int \<Rightarrow> mq \<Rightarrow> bool" where
  "waiting_for_answer p r s \<longleftrightarrow> queue_id s = Some (sen_id s) \<and> sen_msg s = p \<and> (case rec_pc s of
       R_Get \<Rightarrow> queue s = [(1, p)] \<and> rec_out s = []
     | R_Rcv \<Rightarrow> queue s = [(1, p)] \<and> rec_out s = []
     | R_Print_received \<Rightarrow> queue s = [] \<and> rec_msg s = Some p \<and> rec_out s = []
     | R_Snd \<Rightarrow> queue s = [] \<and> rec_out s = [Some p]
     | R_Print_sent \<Rightarrow> queue s = [(2, r)] \<and> rec_out s = [Some p]
     | R_Done \<Rightarrow> queue s = [(2, r)] \<and> rec_out s = [Some p, Some r])"

definition answered :: "int \<Rightarrow> int \<Rightarrow> mq \<Rightarrow> bool" where
  "answered p r s \<longleftrightarrow> sen_msg s = r \<and> (case rec_pc s of
       R_Print_sent \<Rightarrow> rec_out s = [Some p]
     | R_Done \<Rightarrow> rec_out s = [Some p, Some r]
     | _ \<Rightarrow> False)"

definition mq_inv :: "int \<Rightarrow> int \<Rightarrow> mq \<Rightarrow> bool" where
  "mq_inv p r s \<longleftrightarrow> (rec_pc s \<noteq> R_Get \<longrightarrow> rec_id s = Some (sen_id s)) \<and> (case sen_pc s of
       S_Snd \<Rightarrow> queue_id s = Some (sen_id s) \<and> queue s = [] \<and> rec_pc s \<in> {R_Get, R_Rcv} \<and> rec_out s = [] \<and>
         sen_msg s = p \<and> sen_out s = []
     | S_Print_sent \<Rightarrow> waiting_for_answer p r s \<and> sen_out s = []
     | S_Rcv \<Rightarrow> waiting_for_answer p r s \<and> sen_out s = [p]
     | S_Print_received \<Rightarrow> answered p r s \<and> sen_out s = [p]
     | S_Rm_end \<Rightarrow> answered p r s \<and> sen_out s = [p, r]
     | S_Done \<Rightarrow> answered p r s \<and> sen_out s = [p, r]
     | _ \<Rightarrow> False)"

lemmas mq_inv_defs = mq_inv_def waiting_for_answer_def answered_def

lemma mq_inv_sen: "sen_step s = Some t \<Longrightarrow> mq_inv p r s \<Longrightarrow> mq_inv p r t"
  by (cases "sen_pc s"; cases "rec_pc s")
    (simp_all add: sen_step_def mq_inv_defs msgsnd_def msgrcv_def msgctl_rmid_def, safe, simp_all add: mq_inv_defs)

lemma mq_inv_rec: "rec_step r s = Some t \<Longrightarrow> mq_inv p r s \<Longrightarrow> mq_inv p r t"
  by (cases "sen_pc s"; cases "rec_pc s")
    (simp_all add: rec_step_def mq_inv_defs msgsnd_def msgrcv_def, safe, simp_all add: mq_inv_defs)

text \<open>The steps the two programs still make, and their end.\<close>

fun sen_left :: "sen_pc \<Rightarrow> nat" where
  "sen_left S_Get = 8" | "sen_left S_Rm = 7" | "sen_left S_Get_new = 6" | "sen_left S_Snd = 5"
| "sen_left S_Print_sent = 4" | "sen_left S_Rcv = 3" | "sen_left S_Print_received = 2"
| "sen_left S_Rm_end = 1" | "sen_left S_Done = 0"

fun rec_left :: "rec_pc \<Rightarrow> nat" where
  "rec_left R_Get = 5" | "rec_left R_Rcv = 4" | "rec_left R_Print_received = 3" | "rec_left R_Snd = 2"
| "rec_left R_Print_sent = 1" | "rec_left R_Done = 0"

definition steps_left :: "mq \<Rightarrow> nat" where
  "steps_left s = sen_left (sen_pc s) + rec_left (rec_pc s)"

definition both_done :: "mq \<Rightarrow> bool" where
  "both_done s \<longleftrightarrow> sen_pc s = S_Done \<and> rec_pc s = R_Done"

lemma msg_calls_pc [simp]:
  "sen_pc (msgctl_rmid k s) = sen_pc s" "rec_pc (msgctl_rmid k s) = rec_pc s"
  "sen_pc (msgsnd i m s) = sen_pc s" "rec_pc (msgsnd i m s) = rec_pc s"
  "sen_pc (snd (msgget_creat s)) = sen_pc s" "rec_pc (snd (msgget_creat s)) = rec_pc s"
  by (simp_all add: msgctl_rmid_def msgsnd_def msgget_creat_def split: option.split)

lemma sen_nearer: "sen_step s = Some t \<Longrightarrow> steps_left t < steps_left s"
  by (cases "sen_pc s") (auto simp: sen_step_def steps_left_def case_prod_beta split: received.splits)

lemma rec_nearer: "rec_step r s = Some t \<Longrightarrow> steps_left t < steps_left s"
  by (cases "rec_pc s") (auto simp: rec_step_def steps_left_def split: received.splits)

lemma mq_goes_on: "mq_inv p r s \<Longrightarrow> \<not> both_done s \<Longrightarrow> sen_step s \<noteq> None \<or> rec_step r s \<noteq> None"
  by (cases "sen_pc s"; cases "rec_pc s")
    (simp_all add: sen_step_def rec_step_def mq_inv_defs msgrcv_def both_done_def)

lemma done_stays: "both_done s \<Longrightarrow> sen_step s = None \<and> rec_step r s = None"
  by (simp add: both_done_def sen_step_def rec_step_def)

interpretation mq: ending sen_step "rec_step r" "mq_inv p r" both_done steps_left
  by unfold_locales (fact mq_inv_sen mq_inv_rec mq_goes_on done_stays | erule sen_nearer rec_nearer)+


subsection \<open>A receiver that comes first\<close>

definition early :: "mq \<Rightarrow> bool" where
  "early s \<longleftrightarrow> rec_pc s = R_Done \<and> (\<forall>m \<in> set (queue s). fst m \<noteq> 2) \<and> sen_pc s \<notin> {S_Print_received, S_Rm_end, S_Done} \<and>
     (sen_pc s \<notin> {S_Get, S_Get_new} \<longrightarrow> queue_id s = Some (sen_id s))"

lemma early_sen: "sen_step s = Some t \<Longrightarrow> early s \<Longrightarrow> early t"
  by (cases "sen_pc s")
    (auto simp: sen_step_def early_def msgsnd_def msgrcv_def msgctl_rmid_def msgget_creat_def filter_empty_conv
      split: if_splits option.splits list.splits dest: filter_eq_ConsD)

lemma early_rec: "rec_step r s = Some t \<Longrightarrow> early s \<Longrightarrow> early t"
  by (simp add: rec_step_def early_def)

interpretation early: stable sen_step "rec_step r" early
  by unfold_locales (fact early_sen early_rec)+

subsection \<open>Properties\<close>





end
