(* ===== verification/Watch.thy ===== *)
theory Watch
  imports FileSys Proc
begin

section \<open>Looking at directories: \<open>dir/read.c\<close>, \<open>dir/inotify.c\<close> and \<open>inotify/main.c\<close>\<close>

text \<open>
  The lister prints the names in a directory; the two watchers print what is created and deleted in it,
  and when it is moved. Their environment is whether the inotify instance and the watch can be made,
  and what one read after the other gives: the kernel returns as many waiting events as fit the
  buffer. A notice is a format with its arguments; a name is \<open>Undef\<close> where the event has none.
\<close>

subsection \<open>The lister\<close>

definition main_read :: "string \<Rightarrow> fsys \<Rightarrow> string list \<times> ret" where
  "main_read path fs =
     (if is_dir fs path then (''.'' # ''..'' # listing fs path, Ret 0) else ([''Invalid directory''], Ret (- 1)))"

subsection \<open>The watchers\<close>

record change =
  creates :: bool
  deletes :: bool
  moves_self :: bool
  about :: "string option"

datatype reading = Failed | Nothing | Batch "change list"

type_synonym notice = "string \<times> arg list"

definition name_arg :: "change \<Rightarrow> arg" where
  "name_arg e = (case about e of None \<Rightarrow> Undef | Some n \<Rightarrow> S n)"

text \<open>\<open>dir/inotify.c\<close>: every event of every read.\<close>

definition notices :: "string \<Rightarrow> change \<Rightarrow> notice list" where
  "notices path e =
     (if creates e then [(''creating %s was detected'', [name_arg e])] else []) @
     (if deletes e then [(''deleting %s was detected'', [name_arg e])] else []) @
     (if moves_self e then [(''moving %s was detected'', [S path])] else [])"

fun watch_all :: "string \<Rightarrow> reading list \<Rightarrow> notice list \<times> ret" where
  "watch_all path [] = ([], Running)"
| "watch_all path (Failed # rs) = ([(''read'', [])], Ret (- 1))"
| "watch_all path (Nothing # rs) = ([], Ret 0)"
| "watch_all path (Batch es # rs) =
     (case watch_all path rs of (out, r) \<Rightarrow> (concat (map (notices path) es) @ out, r))"

definition main_dir_inotify :: "bool \<Rightarrow> bool \<Rightarrow> string \<Rightarrow> reading list \<Rightarrow> notice list \<times> ret" where
  "main_dir_inotify init_ok watch_ok path rs =
     (if \<not> init_ok then ([(''inotify_init'', [])], Ret (- 1))
      else if \<not> watch_ok then ([(''inotify_add_watch'', [])], Ret (- 1))
      else case watch_all path rs of (out, r) \<Rightarrow> ((''inotify was initialized'', []) # out, r))"

text \<open>\<open>inotify/main.c\<close>: it looks at the start of the buffer only, and ends at the first read that fails
  or gives nothing.\<close>

definition notice_first :: "change \<Rightarrow> notice list" where
  "notice_first e =
     (if creates e then [(''create %s detected'', [name_arg e])]
      else if deletes e then [(''delete %s detected'', [name_arg e])]
      else if moves_self e then [(''move %s detected'', [name_arg e])] else [])"

fun watch_first :: "reading list \<Rightarrow> notice list \<times> ret" where
  "watch_first [] = ([], Running)"
| "watch_first (Batch (e # es) # rs) = (case watch_first rs of (out, r) \<Rightarrow> (notice_first e @ out, r))"
| "watch_first (_ # rs) = ([], Ret 0)"

definition main_inotify :: "bool \<Rightarrow> bool \<Rightarrow> reading list \<Rightarrow> notice list \<times> ret" where
  "main_inotify init_ok watch_ok rs =
     (if \<not> init_ok then ([(''inotify was not initialized'', [])], Ret (- 1))
      else if \<not> watch_ok then ([(''watch was not added'', [])], Ret (- 1))
      else watch_first rs)"

subsection \<open>Properties\<close>

text \<open>
  The kernel sets at most one of the three bits asked for in an event; none where it reports something
  nobody asked for, as the end of a watch (\<open>IN_IGNORED\<close>) or an overflow of its queue
  (\<open>IN_Q_OVERFLOW\<close>). A read that succeeds gives at least one event.
\<close>

definition asked_for :: "change \<Rightarrow> bool" where
  "asked_for e \<longleftrightarrow> creates e \<or> deletes e \<or> moves_self e"

definition one_bit :: "change \<Rightarrow> bool" where
  "one_bit e \<longleftrightarrow> \<not> (creates e \<and> deletes e) \<and> \<not> (creates e \<and> moves_self e) \<and> \<not> (deletes e \<and> moves_self e)"

text \<open>The line each watcher prints for an event it looks at.\<close>

definition line_all :: "string \<Rightarrow> change \<Rightarrow> notice" where
  "line_all path e =
     (if creates e then (''creating %s was detected'', [name_arg e])
      else if deletes e then (''deleting %s was detected'', [name_arg e])
      else (''moving %s was detected'', [S path]))"

definition line_first :: "change \<Rightarrow> notice" where
  "line_first e =
     (if creates e then (''create %s detected'', [name_arg e])
      else if deletes e then (''delete %s detected'', [name_arg e])
      else (''move %s detected'', [name_arg e]))"

lemma notices_one_bit: "one_bit e \<Longrightarrow> notices path e = (if asked_for e then [line_all path e] else [])"
  by (auto simp: notices_def one_bit_def asked_for_def line_all_def)

lemma notice_first_line: "notice_first e = (if asked_for e then [line_first e] else [])"
  by (auto simp: notice_first_def asked_for_def line_first_def)

lemma concat_filter: "(\<And>x. x \<in> set xs \<Longrightarrow> f x = (if P x then [g x] else [])) \<Longrightarrow> concat (map f xs) = map g (filter P xs)"
  by (induction xs) auto

lemma watch_all_batches:
  "watch_all path (map Batch bs @ rs) =
     (concat (map (notices path) (concat bs)) @ fst (watch_all path rs), snd (watch_all path rs))"
  by (induction bs) (simp_all add: case_prod_beta)

lemma watch_first_batches:
  "[] \<notin> set bs \<Longrightarrow> watch_first (map Batch bs @ rs) =
     (concat (map notice_first (map hd bs)) @ fst (watch_first rs), snd (watch_first rs))"
proof (induction bs)
  case (Cons b bs)
  then show ?case by (cases b) (simp_all add: case_prod_beta)
qed simp

lemma filter_heads:
  "[] \<notin> set bs \<Longrightarrow> length (filter P (map hd bs)) \<le> length (filter P (concat bs)) \<and>
     (length (filter P (map hd bs)) = length (filter P (concat bs)) \<longleftrightarrow> (\<forall>b \<in> set bs. filter P (tl b) = []))"
proof (induction bs)
  case (Cons b bs)
  obtain e es where b: "b = e # es" using Cons.prems by (cases b) auto
  then show ?case using Cons by (cases "filter P es") (auto split: if_splits)
qed simp

text \<open>How the watchers end: the reads go on, one fails, or one gives nothing.\<close>

fun end_all :: "reading list \<Rightarrow> notice list \<times> ret" where
  "end_all (Failed # rs) = ([(''read'', [])], Ret (- 1))"
| "end_all (Nothing # rs) = ([], Ret 0)"
| "end_all rs = ([], Running)"

fun end_first :: "reading list \<Rightarrow> ret" where
  "end_first (Failed # rs) = Ret 0"
| "end_first (Nothing # rs) = Ret 0"
| "end_first rs = Running"

text \<open>C40: what the two watchers print and return, for any reads \<open>bs\<close> that succeed and then a failing or an
  empty read, or none yet. The one in \<open>dir/\<close> prints every event asked for of every read, in order, and
  reports a failing read; the one in \<open>inotify/\<close> prints only the first event of each read, if it is asked
  for, and ends with 0 on a failing read as well. So on the same reads they print equally many events
  if and only if no event behind the first of a read is asked for.\<close>
theorem watchers_agree_iff:
  assumes "\<forall>b \<in> set bs. b \<noteq> [] \<and> (\<forall>e \<in> set b. one_bit e)" and "\<forall>b rs'. rs \<noteq> Batch b # rs'"
  shows "main_dir_inotify True True path (map Batch bs @ rs) =
           ((''inotify was initialized'', []) # map (line_all path) (filter asked_for (concat bs)) @ fst (end_all rs),
            snd (end_all rs)) \<and>
         main_inotify True True (map Batch bs @ rs) =
           (map line_first (filter asked_for (map hd bs)), end_first rs) \<and>
         (length (fst (main_inotify True True (map Batch bs))) + 1 =
            length (fst (main_dir_inotify True True path (map Batch bs))) \<longleftrightarrow> (\<forall>b \<in> set bs. \<forall>e \<in> set (tl b). \<not> asked_for e))"
proof -
  have ne: "[] \<notin> set bs" using assms(1) by auto
  have a: "concat (map (notices path) (concat bs)) = map (line_all path) (filter asked_for (concat bs))"
    using assms(1) notices_one_bit by (intro concat_filter) auto
  have f: "concat (map notice_first (map hd bs)) = map line_first (filter asked_for (map hd bs))"
    using notice_first_line by (intro concat_filter)
  have out: "main_dir_inotify True True path (map Batch bs @ rs) =
           ((''inotify was initialized'', []) # map (line_all path) (filter asked_for (concat bs)) @ fst (end_all rs),
            snd (end_all rs)) \<and>
         main_inotify True True (map Batch bs @ rs) =
           (map line_first (filter asked_for (map hd bs)), end_first rs)" if "\<forall>b rs'. rs \<noteq> Batch b # rs'" for rs
  proof -
    have "watch_all path rs = end_all rs \<and> watch_first rs = ([], end_first rs)"
      using that by (cases rs rule: end_all.cases) auto
    then show ?thesis
      by (simp add: main_dir_inotify_def main_inotify_def watch_all_batches watch_first_batches [OF ne] a f del: map_map)
  qed
  show ?thesis
    using filter_heads [OF ne, of asked_for] out [OF assms(2)] out [of "[]"] by (auto simp: filter_empty_conv)
qed

text \<open>A file made and removed again before the read, and the end of the watch.\<close>
theorem watchers_agree_iff_witness:
  "main_inotify True True
     [Batch [\<lparr>creates = True, deletes = False, moves_self = False, about = Some ''a''\<rparr>,
             \<lparr>creates = False, deletes = True, moves_self = False, about = Some ''a''\<rparr>],
      Batch [\<lparr>creates = False, deletes = False, moves_self = False, about = None\<rparr>], Failed] =
     ([(''create %s detected'', [S ''a''])], Ret 0) \<and>
   main_dir_inotify True True ''/w''
     [Batch [\<lparr>creates = True, deletes = False, moves_self = False, about = Some ''a''\<rparr>,
             \<lparr>creates = False, deletes = True, moves_self = False, about = Some ''a''\<rparr>],
      Batch [\<lparr>creates = False, deletes = False, moves_self = False, about = None\<rparr>], Failed] =
     ([(''inotify was initialized'', []), (''creating %s was detected'', [S ''a'']),
       (''deleting %s was detected'', [S ''a'']), (''read'', [])], Ret (- 1))"
proof -
  let ?bs = "[[\<lparr>creates = True, deletes = False, moves_self = False, about = Some ''a''\<rparr>,
    \<lparr>creates = False, deletes = True, moves_self = False, about = Some ''a''\<rparr>],
    [\<lparr>creates = False, deletes = False, moves_self = False, about = None\<rparr>]]"
  have "\<forall>b \<in> set ?bs. b \<noteq> [] \<and> (\<forall>e \<in> set b. one_bit e)" by (simp add: one_bit_def)
  from watchers_agree_iff [OF this, of "[Failed]" "''/w''"] show ?thesis
    by (simp add: asked_for_def line_all_def line_first_def name_arg_def)
qed

end
