(* ===== verification/Spec2Isabelle.thy ===== *)
theory Spec2Isabelle
  imports StackMain Field ChatReply LogBuf BizzBuzz Trans ShMem Backup Grep EnvProg Flocks PollProg CmdServer Msg Watch
begin

text \<open>
  \<^bold>\<open>What is modelled.\<close> The repository is a collection of C programs of a course on system
  programming, one directory each under \<open>src/\<close>. They share no code except the log library (\<open>log/\<close>,
  copied into \<open>udp/\<close>) and a header of constants; each talks to the kernel, and most come in pairs
  that talk to each other. Every directory with C code is modelled except \<open>pthreads/\<close>.

  \<^bold>\<open>Shared theories.\<close>
  \<^item> \<open>Prelude\<close>: failures as values (type \<open>fail\<close>, results \<open>'a res\<close>), the state monad's execution
    rules, lemmas on lists. \<open>Blocked\<close> is a call that does not return, \<open>Overflow\<close>, \<open>Segv\<close>,
    \<open>Null_deref\<close>, \<open>Use_after_free\<close> and \<open>Indeterminate\<close> are undefined behaviour.
  \<^item> \<open>CString\<close>: buffers of bytes and the string functions of the C library, with the buffer's length
    kept; \<open>Strtok\<close>: \<open>strtok_r\<close>. \<open>FileSys\<close>: directories and files by path names.
  \<^item> \<open>Proc\<close>: a process with the answers of its environment and the trace of its system calls; a
    property holds for all environments. \<open>Schedule\<close>: two processes and a schedule that interleaves
    their steps, with the contracts \<open>stable\<close> of an invariant and \<open>ending\<close> of processes that end under
    every fair schedule.

  \<^bold>\<open>The components\<close>, with their theories and sources:
  \<^item> \<open>sh_stack/\<close>: \<open>SysV\<close> (segments and semaphore sets), \<open>StackSpec\<close> (the contract \<open>bounded_stack\<close>),
    \<open>ShmStack\<close> (\<open>stack.c\<close>, every function, interpreted as that contract), \<open>StackProps\<close> (what each
    operation does on every branch), \<open>StackConc\<close> (the system calls of \<open>push\<close> and \<open>pop\<close> as steps of
    concurrent processes: mutual exclusion, atomicity of a call nobody interrupts, the lost
    element), \<open>StackMain\<close> (\<open>main.c\<close>, the instruction loop and what it does with a script, and
    \<open>test.c\<close>).
  \<^item> \<open>list/\<close>: \<open>ListSpec\<close> (the contract), \<open>DList\<close> (\<open>main.c\<close>: a heap of next and previous pointers, rings
    and what insertion and deletion do to them). \<open>modules/\<close>: \<open>Field\<close> (\<open>field.c\<close>, \<open>m16.c\<close>, \<open>mn.c\<close>,
    \<open>main.c\<close>), with the 32-bit sums and C's remainder.
  \<^item> \<open>udp/\<close>: \<open>DfKe\<close> (\<open>dfke.c\<close>), \<open>IdTable\<close> (the contract of the table of clients), \<open>UdpLib\<close> (\<open>udp.c\<close>),
    \<open>TcpLib\<close> (\<open>tcp.c\<close>), \<open>Server\<close> (\<open>server.c\<close>), \<open>UdpClient\<close> (\<open>client.c\<close>), \<open>TcpClient\<close> (\<open>tcp_client.c\<close>);
    the properties of client and server together are in \<open>ChatCodec\<close>, \<open>ChatProps\<close>, \<open>ChatId\<close> and
    \<open>ChatReply\<close>: what the encryption and the copying of strings do to a line, how numbers are
    given, how answers come back.
  \<^item> \<open>log/\<close> and \<open>udp/log.c\<close>: \<open>LogBuf\<close>.
  \<^item> \<open>bizbuzz/\<close>: \<open>BizzBuzz\<close>, the one-pass filter against a
    specification by words.
  \<^item> \<open>trans/\<close>: \<open>Trans\<close>, two programs and the delivery of their signals as a step relation, with an
    invariant and a measure. \<open>sh_memory/\<close>: \<open>ShMem\<close>, the semaphores and the shared byte.
  \<^item> \<open>daemon/\<close>: \<open>Daemon\<close> (every function of \<open>main.c\<close>, \<open>controller.c\<close>), \<open>DaemonMirror\<close> (the first backup of
    a tree), \<open>DaemonProps\<close> (what every operation keeps), \<open>Backup\<close> (the daemon with its controller).
  \<^item> \<open>grep/\<close>: \<open>Grep\<close>. \<open>env/\<close>: \<open>EnvProg\<close>. \<open>flocks/\<close>: \<open>Flocks\<close>. \<open>poll/\<close>: \<open>PollProg\<close>. \<open>socket/\<close> and \<open>tcp/\<close>:
    \<open>CmdServer\<close>. \<open>msg/\<close>: \<open>Msg\<close>. \<open>dir/\<close> and \<open>inotify/\<close>: \<open>Watch\<close>.

  \<^bold>\<open>How state and operations correspond.\<close> A struct or a group of static variables is a record with
  the fields' names, a function a definition with its name (with a suffix where several programs
  use a name, as in \<open>main_list\<close>, \<open>main_daemon\<close>, \<open>settings_tcp\<close>). Loops over system calls take the
  answers of the environment; a loop body is a definition of its own.

  \<^bold>\<open>Bounds and fuel.\<close> A function with a natural number as its first argument runs that many rounds
  of a loop and tells when it is not finished. That it is enough is part of the properties: the
  number of instructions for \<open>session\<close>, the length of the input for \<open>transfer\<close>, the depth of the tree for \<open>monitor_directory\<close>,
  the length of the file for \<open>getlk\<close>; the endless loops of servers are stated for every number of
  rounds. \<open>file_is_moved\<close> bounds the steps of the exchange of signals by a measure. Buffers have
  the sizes of the code: \<open>BUFSZ\<close> 256, \<open>WATCHES\<close> and \<open>PATHSZ\<close> 100, \<open>PIPES\<close> 1000, \<open>PTR\<close> 8.

  \<^bold>\<open>What is not modelled.\<close> \<open>pthreads/\<close> sums in floating point, which the library does not cover.
  Addresses printed as numbers, times and speeds, permissions, links, and failing \<open>malloc\<close> calls
  are left out; what memory holds that was never written is a parameter where the code goes on with
  it (\<open>StackMain\<close>, \<open>Grep\<close>). Signal handlers run where a theory says so: between steps in \<open>Trans\<close> and \<open>ShMem\<close>,
  while the daemon waits in \<open>Daemon\<close>; those of \<open>udp/\<close> are functions of their own. Kernel objects the
  programs only use (segments, semaphores, queues, locks, inotify) behave as documented.
\<close>

end
